theory Spec2Isabelle
  imports Complex_Main
begin

section \<open>JavaScript numbers\<close>

text \<open>
  Every quantity of the player (seconds, ticks, bitrates, repetition counts) is a
  JavaScript number. A number is modelled as a real, or one of the three special values
  of IEEE arithmetic. Rounding of finite results and the sign of zero are not modelled:
  a finite result is the exact real, and zero divides like \<open>+0\<close>.
\<close>

datatype jsnum = Num real | PInf | NInf | NaN

fun js_neg :: "jsnum \<Rightarrow> jsnum" where
  "js_neg (Num a) = Num (- a)"
| "js_neg PInf = NInf"
| "js_neg NInf = PInf"
| "js_neg NaN = NaN"

fun js_add :: "jsnum \<Rightarrow> jsnum \<Rightarrow> jsnum" where
  "js_add (Num a) (Num b) = Num (a + b)"
| "js_add (Num a) PInf = PInf"
| "js_add (Num a) NInf = NInf"
| "js_add PInf (Num b) = PInf"
| "js_add PInf PInf = PInf"
| "js_add PInf NInf = NaN"
| "js_add NInf (Num b) = NInf"
| "js_add NInf PInf = NaN"
| "js_add NInf NInf = NInf"
| "js_add NaN y = NaN"
| "js_add x NaN = NaN"

definition js_sub :: "jsnum \<Rightarrow> jsnum \<Rightarrow> jsnum" where
  "js_sub x y = js_add x (js_neg y)"

fun js_mul :: "jsnum \<Rightarrow> jsnum \<Rightarrow> jsnum" where
  "js_mul (Num a) (Num b) = Num (a * b)"
| "js_mul (Num a) PInf = (if a = 0 then NaN else if 0 < a then PInf else NInf)"
| "js_mul (Num a) NInf = (if a = 0 then NaN else if 0 < a then NInf else PInf)"
| "js_mul PInf (Num b) = (if b = 0 then NaN else if 0 < b then PInf else NInf)"
| "js_mul NInf (Num b) = (if b = 0 then NaN else if 0 < b then NInf else PInf)"
| "js_mul PInf PInf = PInf"
| "js_mul PInf NInf = NInf"
| "js_mul NInf PInf = NInf"
| "js_mul NInf NInf = PInf"
| "js_mul NaN y = NaN"
| "js_mul x NaN = NaN"

fun js_div :: "jsnum \<Rightarrow> jsnum \<Rightarrow> jsnum" where
  "js_div (Num a) (Num b) =
     (if b = 0 then (if a = 0 then NaN else if 0 < a then PInf else NInf)
      else Num (a / b))"
| "js_div (Num a) PInf = Num 0"
| "js_div (Num a) NInf = Num 0"
| "js_div PInf (Num b) = (if 0 \<le> b then PInf else NInf)"
| "js_div NInf (Num b) = (if 0 \<le> b then NInf else PInf)"
| "js_div PInf PInf = NaN"
| "js_div PInf NInf = NaN"
| "js_div NInf PInf = NaN"
| "js_div NInf NInf = NaN"
| "js_div NaN y = NaN"
| "js_div x NaN = NaN"

text \<open>The comparisons \<open><\<close>, \<open>>\<close>, \<open><=\<close>, \<open>>=\<close> and \<open>===\<close>: false whenever NaN takes part.\<close>

fun js_lt :: "jsnum \<Rightarrow> jsnum \<Rightarrow> bool" where
  "js_lt (Num a) (Num b) = (a < b)"
| "js_lt (Num a) PInf = True"
| "js_lt (Num a) NInf = False"
| "js_lt PInf y = False"
| "js_lt NInf (Num b) = True"
| "js_lt NInf PInf = True"
| "js_lt NInf NInf = False"
| "js_lt NaN y = False"
| "js_lt x NaN = False"

fun js_eq :: "jsnum \<Rightarrow> jsnum \<Rightarrow> bool" where
  "js_eq NaN y = False"
| "js_eq x NaN = False"
| "js_eq x y = (x = y)"

definition js_gt :: "jsnum \<Rightarrow> jsnum \<Rightarrow> bool" where
  "js_gt x y = js_lt y x"

definition js_le :: "jsnum \<Rightarrow> jsnum \<Rightarrow> bool" where
  "js_le x y = (js_lt x y \<or> js_eq x y)"

definition js_ge :: "jsnum \<Rightarrow> jsnum \<Rightarrow> bool" where
  "js_ge x y = js_le y x"

text \<open>\<open>Math.floor\<close>, \<open>Math.ceil\<close>, and \<open>Math.max\<close> and \<open>Math.min\<close> of two arguments.\<close>

fun js_floor :: "jsnum \<Rightarrow> jsnum" where
  "js_floor (Num a) = Num (of_int \<lfloor>a\<rfloor>)"
| "js_floor x = x"

fun js_ceil :: "jsnum \<Rightarrow> jsnum" where
  "js_ceil (Num a) = Num (of_int \<lceil>a\<rceil>)"
| "js_ceil x = x"

fun js_max :: "jsnum \<Rightarrow> jsnum \<Rightarrow> jsnum" where
  "js_max NaN y = NaN"
| "js_max x NaN = NaN"
| "js_max x y = (if js_lt x y then y else x)"

fun js_min :: "jsnum \<Rightarrow> jsnum \<Rightarrow> jsnum" where
  "js_min NaN y = NaN"
| "js_min x NaN = NaN"
| "js_min x y = (if js_lt y x then y else x)"

text \<open>Truthiness of a number: \<open>0\<close> and NaN are falsy.\<close>

fun js_truthy :: "jsnum \<Rightarrow> bool" where
  "js_truthy (Num a) = (a \<noteq> 0)"
| "js_truthy NaN = False"
| "js_truthy x = True"

text \<open>A property that may be \<open>undefined\<close> is an option; in arithmetic \<open>undefined\<close> is NaN.\<close>

fun js_toNumber :: "jsnum option \<Rightarrow> jsnum" where
  "js_toNumber None = NaN"
| "js_toNumber (Some x) = x"

fun is_fin :: "jsnum \<Rightarrow> bool" where
  "is_fin (Num a) = True"
| "is_fin x = False"

fun val :: "jsnum \<Rightarrow> real" where
  "val (Num a) = a"
| "val x = 0"

section \<open>The type buffer: garbage collection of buffered ranges\<close>

text \<open>
  A buffered range as the buffer sees it: \<open>start\<close>, \<open>end\<close>, and the bitrate it was
  loaded at. The ranges the garbage collector builds itself carry no bitrate.
\<close>

record range =
  r_start :: jsnum
  r_end :: jsnum
  r_bitrate :: "jsnum option"

text \<open>The fields of a timing tick that the buffer reads.\<close>

record timing =
  t_ts :: jsnum
  t_buffered :: "range list"
  t_duration :: "jsnum option"
  t_liveGap :: jsnum
  t_readyState :: nat

text \<open>
  Modelled from the spec: the class \<open>BufferedRanges\<close> of \<open>./ranges\<close> is not part of the
  sources at hand. \<open>getRange(t)\<close> is the interval containing \<open>t\<close>, intervals being
  half-open, \<open>getOuterRanges(t)\<close> the intervals not containing \<open>t\<close>, and \<open>getGap(t)\<close>
  the distance from \<open>t\<close> to the end of the interval containing it, else infinity.
\<close>

definition range_contains :: "range \<Rightarrow> jsnum \<Rightarrow> bool" where
  "range_contains rg t = (js_le (r_start rg) t \<and> js_lt t (r_end rg))"

definition getRange :: "range list \<Rightarrow> jsnum \<Rightarrow> range option" where
  "getRange buffered t = find (\<lambda>rg. range_contains rg t) buffered"

definition getOuterRanges :: "range list \<Rightarrow> jsnum \<Rightarrow> range list" where
  "getOuterRanges buffered t = filter (\<lambda>rg. \<not> range_contains rg t) buffered"

definition getGap :: "range list \<Rightarrow> jsnum \<Rightarrow> jsnum" where
  "getGap buffered t =
     (case getRange buffered t of None \<Rightarrow> PInf | Some rg \<Rightarrow> js_sub (r_end rg) t)"

definition GC_GAP_CALM :: jsnum where
  "GC_GAP_CALM = Num 240"


text \<open>The loop of \<open>selectGCedRanges\<close> over the outer ranges, with both of its branches.\<close>

fun gc_outer_loop :: "jsnum \<Rightarrow> jsnum \<Rightarrow> range list \<Rightarrow> range list \<Rightarrow> range list" where
  "gc_outer_loop ts gcGap [] cleanedupRanges = cleanedupRanges"
| "gc_outer_loop ts gcGap (outerRange # rest) cleanedupRanges =
     (if js_lt (js_sub ts gcGap) (r_end outerRange)
      then gc_outer_loop ts gcGap rest (cleanedupRanges @ [outerRange])
      else if js_gt (js_add ts gcGap) (r_start outerRange)
      then gc_outer_loop ts gcGap rest (cleanedupRanges @ [outerRange])
      else gc_outer_loop ts gcGap rest cleanedupRanges)"

definition selectGCedRanges :: "timing \<Rightarrow> jsnum \<Rightarrow> range list" where
  "selectGCedRanges tm gcGap =
     (let ts = t_ts tm;
          buffered = t_buffered tm;
          innerRange = getRange buffered ts;
          outerRanges = getOuterRanges buffered ts;
          cleanedupRanges = gc_outer_loop ts gcGap outerRanges []
      in case innerRange of
           None \<Rightarrow> cleanedupRanges
         | Some inner \<Rightarrow>
             (let c1 = (if js_gt (js_sub ts gcGap) (r_start inner)
                        then cleanedupRanges @
                             [\<lparr>r_start = r_start inner, r_end = js_sub ts gcGap,
                               r_bitrate = None\<rparr>]
                        else cleanedupRanges)
              in if js_lt (js_add ts gcGap) (r_end inner)
                 then c1 @ [\<lparr>r_start = js_add ts gcGap, r_end = r_end inner,
                             r_bitrate = None\<rparr>]
                 else c1))"

section \<open>The type buffer: the injection window\<close>

text \<open>
  The buffer is created for one adaptation; its \<open>bufferType\<close> fixes the two water marks.
\<close>

definition LOW_WATER_MARK_PAD :: "string \<Rightarrow> jsnum" where
  "LOW_WATER_MARK_PAD bufferType = (if bufferType = ''video'' then Num 4 else Num 1)"

definition HIGH_WATER_MARK_PAD :: "string \<Rightarrow> jsnum" where
  "HIGH_WATER_MARK_PAD bufferType = (if bufferType = ''video'' then Num 6 else Num 1)"

text \<open>\<open>timing.duration || Infinity\<close>: the duration when it is truthy, else infinity.\<close>

fun duration_or_infinity :: "jsnum option \<Rightarrow> jsnum" where
  "duration_or_infinity None = PInf"
| "duration_or_infinity (Some dur) = (if js_truthy dur then dur else PInf)"

definition endDiff :: "timing \<Rightarrow> jsnum" where
  "endDiff tm = js_sub (duration_or_infinity (t_duration tm)) (t_ts tm)"

text \<open>\<open>Math.min\<close> of three arguments.\<close>

definition js_min3 :: "jsnum \<Rightarrow> jsnum \<Rightarrow> jsnum \<Rightarrow> jsnum" where
  "js_min3 x y z = js_min (js_min x y) z"

definition wantedBufferSize :: "timing \<Rightarrow> jsnum \<Rightarrow> jsnum" where
  "wantedBufferSize tm bufferSize =
     js_max (Num 0) (js_min3 bufferSize (t_liveGap tm) (endDiff tm))"

definition timestampPadding :: "string \<Rightarrow> jsnum \<Rightarrow> range list \<Rightarrow> range list \<Rightarrow> timing \<Rightarrow> jsnum" where
  "timestampPadding bufferType repBitrate ranges buffered tm =
     (let timestamp = t_ts tm;
          bufferGap = getGap buffered timestamp;
          pad = (if js_gt bufferGap (LOW_WATER_MARK_PAD bufferType) \<and> js_lt bufferGap PInf
                 then js_min bufferGap (HIGH_WATER_MARK_PAD bufferType)
                 else Num 0)
      in case getRange ranges timestamp of
           None \<Rightarrow> pad
         | Some currentRange \<Rightarrow>
             (if (case r_bitrate currentRange of None \<Rightarrow> False
                  | Some br \<Rightarrow> js_eq br repBitrate)
              then (let rangeEndGap = js_floor (js_sub (r_end currentRange) timestamp)
                    in if js_gt rangeEndGap pad then rangeEndGap else pad)
              else pad))"

text \<open>
  The index handler of \<open>./index-handler\<close> is not among the sources: its init segment and
  its \<open>getSegments(timestamp, padding, wantedBufferSize)\<close>, which may throw, are
  parameters.
\<close>

datatype 'e thrown = OutOfIndexError 'e | OtherError 'e

definition getSegmentsListToInject ::
  "string \<Rightarrow> jsnum \<Rightarrow> range list \<Rightarrow> 's \<Rightarrow> (jsnum \<Rightarrow> jsnum \<Rightarrow> jsnum \<Rightarrow> 'e thrown + 's list)
   \<Rightarrow> range list \<Rightarrow> timing \<Rightarrow> jsnum \<Rightarrow> bool \<Rightarrow> 'e thrown + 's list" where
  "getSegmentsListToInject bufferType repBitrate ranges initSegment indexGetSegments
       buffered tm bufferSize withInitSegment =
     (let segments = (if withInitSegment then [initSegment] else [])
      in if t_readyState tm = 0 then Inr segments
         else (case indexGetSegments (t_ts tm)
                      (timestampPadding bufferType repBitrate ranges buffered tm)
                      (wantedBufferSize tm bufferSize) of
                 Inl err \<Rightarrow> Inl err
               | Inr mediaSegments \<Rightarrow> Inr (segments @ mediaSegments)))"

section \<open>The type buffer: appending to the sink\<close>














section \<open>The clock: augmented timings and seekings\<close>

text \<open>
  A tick of the clock is a plain object. Each property the code reads is a field that
  is absent (\<open>None\<close>) or holds a value; the remaining properties are a map from their
  names. \<open>objectAssign(target, source)\<close> copies every own property of the source over
  the target.
\<close>

record tick =
  o_state :: "string option"
  o_bufferGap :: "jsnum option"
  o_currentTime :: "jsnum option"
  o_liveGap :: "jsnum option"
  o_others :: "string \<rightharpoonup> jsnum"

definition empty_object :: tick where
  "empty_object = \<lparr>o_state = None, o_bufferGap = None, o_currentTime = None,
                    o_liveGap = None, o_others = Map.empty\<rparr>"

definition assign_property :: "'a option \<Rightarrow> 'a option \<Rightarrow> 'a option" where
  "assign_property target source = (case source of None \<Rightarrow> target | Some v \<Rightarrow> Some v)"

definition objectAssign :: "tick \<Rightarrow> tick \<Rightarrow> tick" where
  "objectAssign target source =
     \<lparr>o_state = assign_property (o_state target) (o_state source),
      o_bufferGap = assign_property (o_bufferGap target) (o_bufferGap source),
      o_currentTime = assign_property (o_currentTime target) (o_currentTime source),
      o_liveGap = assign_property (o_liveGap target) (o_liveGap source),
      o_others = o_others target ++ o_others source\<rparr>"

text \<open>
  An observable is the list of the values it emits, in order; \<open>filter\<close>, \<open>skip\<close>, \<open>map\<close>
  and \<open>startWith\<close> of the stream library are the corresponding functions on lists.
\<close>

definition rx_filter :: "('a \<Rightarrow> bool) \<Rightarrow> 'a list \<Rightarrow> 'a list" where
  "rx_filter p xs = filter p xs"

definition rx_skip :: "nat \<Rightarrow> 'a list \<Rightarrow> 'a list" where
  "rx_skip n xs = drop n xs"

definition rx_map :: "('a \<Rightarrow> 'b) \<Rightarrow> 'a list \<Rightarrow> 'b list" where
  "rx_map f xs = map f xs"

definition rx_startWith :: "'a \<Rightarrow> 'a list \<Rightarrow> 'a list" where
  "rx_startWith x xs = x # xs"

definition SEEK_GAP :: jsnum where
  "SEEK_GAP = Num 2"

text \<open>The predicate given to \<open>filter\<close> in \<open>seekingsSampler\<close>.\<close>

definition seeking_filter :: "tick \<Rightarrow> bool" where
  "seeking_filter tk =
     (o_state tk = Some ''seeking'' \<and>
      (o_bufferGap tk = Some PInf \<or>
       js_lt (js_toNumber (o_bufferGap tk)) (js_neg SEEK_GAP)))"

text \<open>
  The JavaScript version emits \<open>true\<close> first and then the ticks that pass; the
  TypeScript version maps every element to \<open>null\<close>.
\<close>

datatype seeking = StartTrue | Seeking tick

definition seekingsSampler :: "tick list \<Rightarrow> seeking list" where
  "seekingsSampler timingsSampling =
     rx_startWith StartTrue
       (rx_map Seeking (rx_skip 1 (rx_filter seeking_filter timingsSampling)))"

definition seekingsSampler_ts :: "tick list \<Rightarrow> unit list" where
  "seekingsSampler_ts timingsSampling =
     rx_startWith ()
       (rx_map (\<lambda>_. ()) (rx_skip 1 (rx_filter seeking_filter timingsSampling)))"

text \<open>
  The manifest, of which only \<open>isLive\<close> is read here. \<open>getMaximumBufferPosition\<close> of
  \<open>manifest/timings\<close> is not among the sources: it is a parameter.
\<close>

record manifest =
  isLive :: bool

definition liveGap_of :: "(manifest \<Rightarrow> jsnum) \<Rightarrow> manifest \<Rightarrow> tick \<Rightarrow> jsnum" where
  "liveGap_of getMaximumBufferPosition mf tk =
     (if isLive mf
      then js_sub (getMaximumBufferPosition mf) (js_toNumber (o_currentTime tk))
      else PInf)"

text \<open>The function mapped over the timings, in the JavaScript and the TypeScript version.\<close>

definition augment_js :: "(manifest \<Rightarrow> jsnum) \<Rightarrow> manifest \<Rightarrow> tick \<Rightarrow> tick" where
  "augment_js getMaximumBufferPosition mf tk =
     (let clonedTiming = objectAssign empty_object tk
      in clonedTiming\<lparr>o_liveGap := Some (liveGap_of getMaximumBufferPosition mf tk)\<rparr>)"

definition augment_ts :: "(manifest \<Rightarrow> jsnum) \<Rightarrow> manifest \<Rightarrow> tick \<Rightarrow> tick" where
  "augment_ts getMaximumBufferPosition mf tk =
     objectAssign
       (empty_object\<lparr>o_liveGap := Some (liveGap_of getMaximumBufferPosition mf tk)\<rparr>) tk"

definition createTimingsAndSeekingsObservables ::
  "(manifest \<Rightarrow> jsnum) \<Rightarrow> manifest \<Rightarrow> tick list \<Rightarrow> tick list \<times> seeking list" where
  "createTimingsAndSeekingsObservables getMaximumBufferPosition mf timings =
     (let augmentedTimings = rx_map (augment_js getMaximumBufferPosition mf) timings
      in (augmentedTimings, seekingsSampler augmentedTimings))"

definition createTimingsAndSeekingsObservables_ts ::
  "(manifest \<Rightarrow> jsnum) \<Rightarrow> manifest \<Rightarrow> tick list \<Rightarrow> tick list \<times> unit list" where
  "createTimingsAndSeekingsObservables_ts getMaximumBufferPosition mf timings =
     (let augmentedTimings = rx_map (augment_ts getMaximumBufferPosition mf) timings
      in (augmentedTimings, seekingsSampler_ts augmentedTimings))"

section \<open>The ABR manager\<close>

definition KNOWN_TYPES :: "string list" where
  "KNOWN_TYPES = [''audio'', ''video'', ''text'', ''image'']"

datatype abr_error = AssertError string

text \<open>\<open>assertType\<close>, which the methods call in development builds only.\<close>

definition assertType :: "string \<Rightarrow> abr_error + unit" where
  "assertType type = (if type \<in> set KNOWN_TYPES then Inr () else Inl (AssertError type))"

definition dev_assertType :: "bool \<Rightarrow> string \<Rightarrow> abr_error + unit" where
  "dev_assertType dev type = (if dev then assertType type else Inr ())"

text \<open>
  Modelled from the spec: the class \<open>RepresentationChooser\<close> of
  \<open>./representation_chooser.js\<close> is not among the sources. Its state holds the
  \<open>manualBitrate\<close> and the \<open>maxAutoBitrate\<close>; the chooser is built from the options it is
  given, and the two subjects \<open>manualBitrate$\<close> and \<open>maxAutoBitrate$\<close> hold the last value
  sent to them with \<open>next\<close>, which \<open>getValue\<close> returns.
\<close>

record chooser =
  c_initialBitrate :: "jsnum option"
  c_manualBitrate :: "jsnum option"
  c_maxAutoBitrate :: "jsnum option"

text \<open>The options kept for the choosers still to be made, by type.\<close>

record chooser_options =
  initialBitrates :: "string \<rightharpoonup> jsnum"
  manualBitrates :: "string \<rightharpoonup> jsnum"
  maxAutoBitrates :: "string \<rightharpoonup> jsnum"

record abr_manager =
  choosers :: "string \<rightharpoonup> chooser"
  chooserInstanceOptions :: chooser_options

definition createChooser :: "string \<Rightarrow> chooser_options \<Rightarrow> chooser" where
  "createChooser type options =
     \<lparr>c_initialBitrate = initialBitrates options type,
      c_manualBitrate = manualBitrates options type,
      c_maxAutoBitrate = maxAutoBitrates options type\<rparr>"

definition lazilyAttachChooser :: "abr_manager \<Rightarrow> string \<Rightarrow> abr_manager" where
  "lazilyAttachChooser instce bufferType =
     (case choosers instce bufferType of
        None \<Rightarrow> instce\<lparr>choosers := (choosers instce)
                  (bufferType \<mapsto> createChooser bufferType (chooserInstanceOptions instce))\<rparr>
      | Some c \<Rightarrow> instce)"

text \<open>The constructor, given the three option objects (each \<open>{}\<close> when left out).\<close>

definition new_ABRManager :: "chooser_options \<Rightarrow> abr_manager" where
  "new_ABRManager options = \<lparr>choosers = Map.empty, chooserInstanceOptions = options\<rparr>"

definition setManualBitrate :: "bool \<Rightarrow> abr_manager \<Rightarrow> string \<Rightarrow> jsnum \<Rightarrow> abr_error + abr_manager" where
  "setManualBitrate dev this type bitrate =
     (case dev_assertType dev type of
        Inl err \<Rightarrow> Inl err
      | Inr _ \<Rightarrow>
          (case choosers this type of
             None \<Rightarrow>
               Inr (this\<lparr>chooserInstanceOptions := (chooserInstanceOptions this)
                      \<lparr>initialBitrates :=
                         (initialBitrates (chooserInstanceOptions this))(type \<mapsto> bitrate)\<rparr>\<rparr>)
           | Some c \<Rightarrow>
               Inr (this\<lparr>choosers := (choosers this)
                      (type \<mapsto> c\<lparr>c_manualBitrate := Some bitrate\<rparr>)\<rparr>)))"

definition setMaxAutoBitrate :: "bool \<Rightarrow> abr_manager \<Rightarrow> string \<Rightarrow> jsnum \<Rightarrow> abr_error + abr_manager" where
  "setMaxAutoBitrate dev this type bitrate =
     (case dev_assertType dev type of
        Inl err \<Rightarrow> Inl err
      | Inr _ \<Rightarrow>
          (case choosers this type of
             None \<Rightarrow>
               Inr (this\<lparr>chooserInstanceOptions := (chooserInstanceOptions this)
                      \<lparr>maxAutoBitrates :=
                         (maxAutoBitrates (chooserInstanceOptions this))(type \<mapsto> bitrate)\<rparr>\<rparr>)
           | Some c \<Rightarrow>
               Inr (this\<lparr>choosers := (choosers this)
                      (type \<mapsto> c\<lparr>c_maxAutoBitrate := Some bitrate\<rparr>)\<rparr>)))"

definition getManualBitrate :: "bool \<Rightarrow> abr_manager \<Rightarrow> string \<Rightarrow> abr_error + jsnum option" where
  "getManualBitrate dev this type =
     (case dev_assertType dev type of
        Inl err \<Rightarrow> Inl err
      | Inr _ \<Rightarrow>
          (case choosers this type of
             Some c \<Rightarrow> Inr (c_manualBitrate c)
           | None \<Rightarrow> Inr (manualBitrates (chooserInstanceOptions this) type)))"

definition getMaxAutoBitrate :: "bool \<Rightarrow> abr_manager \<Rightarrow> string \<Rightarrow> abr_error + jsnum option" where
  "getMaxAutoBitrate dev this type =
     (case dev_assertType dev type of
        Inl err \<Rightarrow> Inl err
      | Inr _ \<Rightarrow>
          (case choosers this type of
             Some c \<Rightarrow> Inr (c_maxAutoBitrate c)
           | None \<Rightarrow> Inr (maxAutoBitrates (chooserInstanceOptions this) type)))"

section \<open>The timeline index\<close>

text \<open>
  An entry of the timeline: its start \<open>ts\<close>, its duration \<open>d\<close>, its repeat count \<open>r\<close>, and
  the byte range handed on to the segments. \<open>getRepeat\<close> also reads a property \<open>t\<close>,
  which the entries built in this module do not have.
\<close>

record entry =
  e_ts :: jsnum
  e_d :: jsnum
  e_r :: jsnum
  e_t :: "jsnum option"
  e_range :: "(jsnum \<times> jsnum) option"

record index =
  i_timeline :: "entry list"
  i_timescale :: "jsnum option"
  i_presentationTimeOffset :: "jsnum option"
  i_media :: string
  i_startNumber :: "jsnum option"

text \<open>
  What \<open>new Segment(args)\<close> is given. The id, the string \<open>repId + "_" + time\<close>, is kept as
  the pair of its two parts.
\<close>

record segment =
  seg_id :: "string \<times> jsnum"
  seg_time :: jsnum
  seg_init :: bool
  seg_range :: "(jsnum \<times> jsnum) option"
  seg_duration :: "jsnum option"
  seg_indexRange :: "(jsnum \<times> jsnum) option"
  seg_timescale :: "jsnum option"
  seg_media :: string
  seg_number :: jsnum

text \<open>
  The binary search of \<open>getSegmentIndex\<close>. The halving \<open>(low + high) >>> 1\<close> is the
  quotient by two: the sum of two indexes of an array stays below \<open>2^32\<close>.
\<close>

function getSegmentIndex_loop :: "entry list \<Rightarrow> jsnum \<Rightarrow> nat \<Rightarrow> nat \<Rightarrow> nat" where
  "getSegmentIndex_loop timeline tsv low high =
     (if low < high
      then (let mid = (low + high) div 2
            in if js_lt (e_ts (timeline ! mid)) tsv
               then getSegmentIndex_loop timeline tsv (mid + 1) high
               else getSegmentIndex_loop timeline tsv low mid)
      else low)"
  by pat_completeness auto
termination
  by (relation "measure (\<lambda>(timeline, tsv, low, high). high - low)") auto

declare getSegmentIndex_loop.simps [simp del]

definition getSegmentIndex :: "index \<Rightarrow> jsnum \<Rightarrow> nat" where
  "getSegmentIndex idx tsv =
     (let low = getSegmentIndex_loop (i_timeline idx) tsv 0 (length (i_timeline idx))
      in if low > 0 then low - 1 else low)"

definition getSegmentNumber :: "jsnum \<Rightarrow> jsnum \<Rightarrow> jsnum \<Rightarrow> jsnum" where
  "getSegmentNumber up tsv duration =
     (let diff = js_sub up tsv
      in if js_gt diff (Num 0) then js_floor (js_div diff duration) else Num 0)"

definition getRepeat :: "entry \<Rightarrow> entry option \<Rightarrow> jsnum" where
  "getRepeat seg nextSeg =
     (let rep = (if js_truthy (e_r seg) then e_r seg else Num 0)
      in if js_lt rep (Num 0)
         then (let repEnd = (case nextSeg of Some nxt \<Rightarrow> js_toNumber (e_t nxt) | None \<Rightarrow> PInf)
               in js_sub (js_ceil (js_div (js_sub repEnd (e_ts seg)) (e_d seg))) (Num 1))
         else rep)"

text \<open>
  Modelled from the spec: \<open>normalizeRange\<close> and \<open>getTimelineRangeEnd\<close> of \<open>./helpers.js\<close>
  are not among the sources. The bounds are converted to ticks with the timescale, and
  the presentation time offset (0 when absent) is subtracted; the end of an entry is
  \<open>ts + (r + 1) * d\<close>.
\<close>

definition normalizeRange :: "index \<Rightarrow> jsnum \<Rightarrow> jsnum \<Rightarrow> jsnum \<times> jsnum" where
  "normalizeRange idx up0 to0 =
     (let pto = (case i_presentationTimeOffset idx of None \<Rightarrow> Num 0 | Some x \<Rightarrow> x);
          timescale = js_toNumber (i_timescale idx)
      in (js_sub (js_mul up0 timescale) pto, js_sub (js_mul to0 timescale) pto))"

definition getTimelineRangeEnd :: "entry \<Rightarrow> jsnum" where
  "getTimelineRangeEnd e = js_add (e_ts e) (js_mul (js_add (e_r e) (Num 1)) (e_d e))"

text \<open>The two segments \<open>getSegments\<close> builds: for a live-added entry, and for a repetition.\<close>

definition live_segment :: "string \<Rightarrow> index \<Rightarrow> entry \<Rightarrow> jsnum \<Rightarrow> segment" where
  "live_segment repId idx segmentRange number =
     \<lparr>seg_id = (repId, e_ts segmentRange), seg_time = e_ts segmentRange, seg_init = False,
      seg_range = e_range segmentRange, seg_duration = None, seg_indexRange = None,
      seg_timescale = i_timescale idx, seg_media = i_media idx, seg_number = number\<rparr>"

definition timed_segment :: "string \<Rightarrow> index \<Rightarrow> entry \<Rightarrow> jsnum \<Rightarrow> jsnum \<Rightarrow> segment" where
  "timed_segment repId idx segmentRange segmentTime number =
     \<lparr>seg_id = (repId, segmentTime), seg_time = segmentTime, seg_init = False,
      seg_range = e_range segmentRange, seg_duration = Some (e_d segmentRange),
      seg_indexRange = None, seg_timescale = i_timescale idx, seg_media = i_media idx,
      seg_number = number\<rparr>"

text \<open>
  The inner \<open>while\<close> of \<open>getSegments\<close>, which need not end. It returns whether the outer
  loop goes on (\<open>continue loop\<close>) or stops (\<open>break\<close>), the number and the segments.
\<close>

partial_function (option) getSegments_while ::
  "string \<Rightarrow> index \<Rightarrow> entry \<Rightarrow> jsnum \<Rightarrow> jsnum \<Rightarrow> jsnum \<Rightarrow> jsnum \<Rightarrow> segment list
   \<Rightarrow> (bool \<times> jsnum \<times> segment list) option" where
  "getSegments_while repId idx segmentRange to0 repeat segmentNumber number segments =
     (if js_lt (js_add (e_ts segmentRange) (js_mul segmentNumber (e_d segmentRange))) to0
      then (if js_le segmentNumber repeat
            then getSegments_while repId idx segmentRange to0 repeat
                   (js_add segmentNumber (Num 1)) (js_add number (Num 1))
                   (segments @
                    [timed_segment repId idx segmentRange
                       (js_add (e_ts segmentRange) (js_mul segmentNumber (e_d segmentRange)))
                       (js_add number (Num 1))])
            else Some (True, number, segments))
      else Some (False, number, segments))"

declare getSegments_while.simps [code]

text \<open>
  The outer loop, entered with \<open>timelineIndex\<close> already incremented.
\<close>

function getSegments_loop ::
  "string \<Rightarrow> index \<Rightarrow> jsnum \<Rightarrow> jsnum \<Rightarrow> nat \<Rightarrow> jsnum \<Rightarrow> jsnum \<Rightarrow> segment list
   \<Rightarrow> segment list option" where
  "getSegments_loop repId idx up to0 timelineIndex maxDuration number segments =
     (if timelineIndex \<ge> length (i_timeline idx) then Some segments
      else (let number1 = js_add number (Num 1);
                segmentRange = i_timeline idx ! timelineIndex;
                maxDuration1 = js_max maxDuration (e_d segmentRange)
            in if js_lt (e_d segmentRange) (Num 0)
               then (if js_lt (js_add (e_ts segmentRange) maxDuration1) to0
                     then Some (segments @ [live_segment repId idx segmentRange number1])
                     else Some segments)
               else (let repeat = getRepeat segmentRange
                                    (if timelineIndex + 1 < length (i_timeline idx)
                                     then Some (i_timeline idx ! (timelineIndex + 1))
                                     else None);
                         segmentNumber = getSegmentNumber up (e_ts segmentRange)
                                           (e_d segmentRange)
                     in if js_gt segmentNumber repeat
                        then getSegments_loop repId idx up to0 (timelineIndex + 1)
                               maxDuration1 (js_add number1 repeat) segments
                        else (case getSegments_while repId idx segmentRange to0 repeat
                                     segmentNumber number1 segments of
                                None \<Rightarrow> None
                              | Some (continue, number2, segments2) \<Rightarrow>
                                  if continue
                                  then getSegments_loop repId idx up to0 (timelineIndex + 1)
                                         maxDuration1 number2 segments2
                                  else Some segments2))))"
  by pat_completeness auto
termination
  by (relation "measure (\<lambda>(repId, idx, up, to0, timelineIndex, maxDuration, number, segments).
                  length (i_timeline idx) - timelineIndex)") auto

declare getSegments_loop.simps [simp del]

definition getSegments :: "string \<Rightarrow> index \<Rightarrow> jsnum \<Rightarrow> jsnum \<Rightarrow> segment list option" where
  "getSegments repId idx up0 to0 =
     (let (up, to1) = normalizeRange idx up0 to0;
          timeline = i_timeline idx;
          maxDuration = (if length timeline = 0 then Num 0
                         else if js_truthy (e_d (timeline ! 0)) then e_d (timeline ! 0)
                         else Num 0);
          number = js_sub (case i_startNumber idx of None \<Rightarrow> Num 0 | Some n \<Rightarrow> n) (Num 1)
      in getSegments_loop repId idx up to1 (getSegmentIndex idx up) maxDuration number [])"

definition checkDiscontinuity :: "index \<Rightarrow> jsnum \<Rightarrow> jsnum" where
  "checkDiscontinuity idx time0 =
     (let timeline = i_timeline idx;
          timescale = (case i_timescale idx of None \<Rightarrow> Num 1 | Some x \<Rightarrow> x);
          time = js_mul time0 timescale
      in if js_le time (Num 0) then Num (- 1)
         else (let segmentIndex = getSegmentIndex idx time
               in if int segmentIndex < 0 \<or> int segmentIndex \<ge> int (length timeline) - 1
                  then Num (- 1)
                  else (let rng = timeline ! segmentIndex
                        in if js_eq (e_d rng) (Num (- 1)) then Num (- 1)
                           else (let rangeUp = e_ts rng;
                                     rangeTo = getTimelineRangeEnd rng;
                                     nextRange = timeline ! (segmentIndex + 1)
                                 in if \<not> js_eq rangeTo (e_ts nextRange) \<and>
                                       js_ge time rangeUp \<and>
                                       js_le time rangeTo \<and>
                                       js_lt (js_sub rangeTo time) timescale
                                    then js_div (e_ts nextRange) timescale
                                    else Num (- 1)))))"

text \<open>
  The timing of a segment as \<open>_addSegmentInfos\<close> receives it; of the current segment
  only the time and the timescale are read.
\<close>

record segment_infos =
  si_time :: jsnum
  si_duration :: jsnum
  si_timescale :: jsnum

datatype js_error = TypeError

definition same_timescale :: "jsnum \<Rightarrow> index \<Rightarrow> bool" where
  "same_timescale tsc idx = (case i_timescale idx of None \<Rightarrow> False | Some x \<Rightarrow> js_eq tsc x)"

definition rescale :: "jsnum \<Rightarrow> jsnum \<Rightarrow> index \<Rightarrow> jsnum" where
  "rescale x tsc idx = js_mul (js_div x tsc) (js_toNumber (i_timescale idx))"

definition scaledNewSegment :: "index \<Rightarrow> segment_infos \<Rightarrow> jsnum \<times> jsnum" where
  "scaledNewSegment idx newSegment =
     (if same_timescale (si_timescale newSegment) idx
      then (si_time newSegment, si_duration newSegment)
      else (rescale (si_time newSegment) (si_timescale newSegment) idx,
            rescale (si_duration newSegment) (si_timescale newSegment) idx))"

definition scaledCurrentTime :: "index \<Rightarrow> segment_infos option \<Rightarrow> jsnum option" where
  "scaledCurrentTime idx currentSegment =
     (case currentSegment of
        None \<Rightarrow> None
      | Some cur \<Rightarrow>
          Some (if same_timescale (si_timescale cur) idx then si_time cur
                else rescale (si_time cur) (si_timescale cur) idx))"

definition shouldDeductNextSegment :: "index \<Rightarrow> segment_infos \<Rightarrow> segment_infos option \<Rightarrow> bool" where
  "shouldDeductNextSegment idx newSegment currentSegment =
     (case scaledCurrentTime idx currentSegment of
        None \<Rightarrow> False
      | Some sct \<Rightarrow> js_eq (fst (scaledNewSegment idx newSegment)) sct)"

text \<open>
  \<open>_addSegmentInfos\<close> returns whether it added the segment, and the index it has
  mutated. Reading a property of \<open>last\<close> on an empty timeline throws.
\<close>

definition addSegmentInfos ::
  "index \<Rightarrow> segment_infos \<Rightarrow> segment_infos option \<Rightarrow> js_error + (bool \<times> index)" where
  "addSegmentInfos idx newSegment currentSegment =
     (let timeline = i_timeline idx;
          timelineLength = length timeline;
          (newTime, newDuration) = scaledNewSegment idx newSegment
      in if timelineLength = 0 then Inl TypeError
         else (let lst = timeline ! (timelineLength - 1)
               in if shouldDeductNextSegment idx newSegment currentSegment
                  then (let newSegmentTs = js_add newTime newDuration;
                            lastSegmentTs = js_add (e_ts lst) (js_mul (e_d lst) (e_r lst));
                            tsDiff = js_sub newSegmentTs lastSegmentTs
                        in if js_le tsDiff (Num 0) then Inr (False, idx)
                           else (let pushed = \<lparr>e_ts = newSegmentTs, e_d = Num (- 1),
                                                e_r = Num 0, e_t = None, e_range = None\<rparr>;
                                     timeline1 =
                                       (if js_eq (e_d lst) (Num (- 1))
                                        then (if timelineLength \<ge> 2 \<and>
                                                 js_eq (e_d (timeline ! (timelineLength - 2)))
                                                   tsDiff
                                              then butlast
                                                     (timeline[timelineLength - 2 :=
                                                        (timeline ! (timelineLength - 2))
                                                          \<lparr>e_r := js_add
                                                             (e_r (timeline ! (timelineLength - 2)))
                                                             (Num 1)\<rparr>])
                                              else timeline[timelineLength - 1 :=
                                                     lst\<lparr>e_d := tsDiff\<rparr>])
                                        else timeline)
                                 in Inr (True, idx\<lparr>i_timeline := timeline1 @ [pushed]\<rparr>)))
                  else if js_ge newTime (getTimelineRangeEnd lst)
                  then (if js_eq (e_d lst) newDuration
                        then Inr (True, idx\<lparr>i_timeline :=
                               timeline[timelineLength - 1 :=
                                 lst\<lparr>e_r := js_add (e_r lst) (Num 1)\<rparr>]\<rparr>)
                        else Inr (True, idx\<lparr>i_timeline := timeline @
                               [\<lparr>e_ts = newTime, e_d = newDuration, e_r = Num 0,
                                 e_t = None, e_range = None\<rparr>]\<rparr>))
                  else Inr (False, idx)))"

section \<open>Well-formed timelines\<close>

text \<open>
  The invariants of a timeline: every number is finite, a repeat count is not negative,
  a duration is positive unless the entry is the open-ended last one (\<open>d = -1\<close>), and an
  entry starts no earlier than the end \<open>ts + (r + 1) * d\<close> of the one before it.
\<close>

definition timeline_ok :: "entry list \<Rightarrow> bool" where
  "timeline_ok tline \<longleftrightarrow>
     (\<forall>e \<in> set tline. is_fin (e_ts e) \<and> is_fin (e_d e) \<and> is_fin (e_r e) \<and> 0 \<le> val (e_r e))
     \<and> (\<forall>i < length tline. 0 < val (e_d (tline ! i))
                              \<or> (val (e_d (tline ! i)) = - 1 \<and> Suc i = length tline))
     \<and> (\<forall>i. Suc i < length tline \<longrightarrow>
            val (e_ts (tline ! i)) + (val (e_r (tline ! i)) + 1) * val (e_d (tline ! i))
              \<le> val (e_ts (tline ! Suc i)))"

text \<open>
  What is stated of the segments that one entry, and the entries from an index on,
  add to the list: their times, their ids, their order.
\<close>

definition entry_segments :: "string \<Rightarrow> real \<Rightarrow> real \<Rightarrow> real \<Rightarrow> real \<Rightarrow> segment list \<Rightarrow> bool" where
  "entry_segments repId lo hi tt dd new \<longleftrightarrow>
     (\<forall>s \<in> set new. \<exists>tv. seg_time s = Num tv \<and> lo \<le> tv \<and> tv \<le> hi \<and> tv < tt
                        \<and> seg_duration s = Some (Num dd) \<and> seg_id s = (repId, Num tv))
     \<and> sorted_wrt (<) (map (\<lambda>s. val (seg_time s)) new)"

definition loop_segments :: "string \<Rightarrow> entry list \<Rightarrow> real \<Rightarrow> real \<Rightarrow> nat \<Rightarrow> segment list \<Rightarrow> bool" where
  "loop_segments repId tline up tt i new \<longleftrightarrow>
     (\<forall>s \<in> set new. \<exists>tv. seg_time s = Num tv \<and> seg_id s = (repId, Num tv)
         \<and> i < length tline \<and> val (e_ts (tline ! i)) \<le> tv
         \<and> (case seg_duration s of
               None \<Rightarrow> True
             | Some dv \<Rightarrow> \<exists>dd. dv = Num dd \<and> up - dd < tv \<and> tv < tt
                               \<and> (\<exists>e \<in> set tline. e_d e = Num dd)))
     \<and> sorted_wrt (<) (map (\<lambda>s. val (seg_time s)) new)
     \<and> (\<forall>s \<in> set (butlast new). seg_duration s \<noteq> None)"

section \<open>Facts about numbers\<close>

lemma js_min_fin [simp]: "js_min (Num a) (Num b) = Num (min a b)"
  by (simp add: min_def)

lemma js_max_fin [simp]: "js_max (Num a) (Num b) = Num (max a b)"
  by (simp add: max_def)

lemma js_sub_fin [simp]: "js_sub (Num a) (Num b) = Num (a - b)"
  by (simp add: js_sub_def)

lemma js_le_fin [simp]: "js_le (Num a) (Num b) = (a \<le> b)"
  by (auto simp add: js_le_def)

lemma js_ge_fin [simp]: "js_ge (Num a) (Num b) = (b \<le> a)"
  by (simp add: js_ge_def)

lemma js_gt_fin [simp]: "js_gt (Num a) (Num b) = (b < a)"
  by (simp add: js_gt_def)

lemma is_fin_val: "is_fin x \<Longrightarrow> x = Num (val x)"
  by (cases x) simp_all

lemma js_eq_fin [simp]: "js_eq (Num a) (Num b) = (a = b)"
  by simp

lemma duration_or_infinity_cases:
  "duration_or_infinity du =
     (case du of None \<Rightarrow> PInf | Some dur \<Rightarrow> if dur = NaN \<or> dur = Num 0 then PInf else dur)"
proof (cases du)
  case None
  then show ?thesis by simp
next
  case (Some dur)
  then show ?thesis by (cases dur) simp_all
qed

section \<open>Garbage collection: which ranges are selected\<close>

text \<open>
  C1. The claim: an outer range is selected exactly when it ends before \<open>ts - gap\<close> or
  starts after \<open>ts + gap\<close>. The code tests the opposite inequalities. With the playhead
  at 100 inside [90, 110) and a gap of 240, the outer range [0, 50) lies wholly inside
  the window [-140, 340]: it neither ends before -140 nor starts after 340, yet it is
  the one range the code selects.
\<close>

theorem selectGCedRanges_selects_near_range:
  "selectGCedRanges
     \<lparr>t_ts = Num 100,
      t_buffered = [\<lparr>r_start = Num 0, r_end = Num 50, r_bitrate = Some (Num 1000)\<rparr>,
                    \<lparr>r_start = Num 90, r_end = Num 110, r_bitrate = Some (Num 1000)\<rparr>],
      t_duration = None, t_liveGap = PInf, t_readyState = 4\<rparr> GC_GAP_CALM
   = [\<lparr>r_start = Num 0, r_end = Num 50, r_bitrate = Some (Num 1000)\<rparr>]
   \<and> \<not> js_lt (Num 50) (js_sub (Num 100) GC_GAP_CALM)
   \<and> \<not> js_gt (Num 0) (js_add (Num 100) GC_GAP_CALM)"
  by (simp add: selectGCedRanges_def getRange_def getOuterRanges_def range_contains_def
      GC_GAP_CALM_def js_sub_def js_gt_def js_le_def)

section \<open>The injection window\<close>

text \<open>
  C6, as the spec states it: \<open>endDiff\<close> is the duration, when it is defined, minus the
  current timestamp. The code writes \<open>timing.duration || Infinity\<close>, so a duration of 0
  counts as no duration: at timestamp 10 with buffer size 30 and no live gap, the code
  computes \<open>endDiff = Infinity\<close> and a wanted size of 30, where the stated formula gives
  \<open>endDiff = -10\<close> and a wanted size of 0.
\<close>

theorem wantedBufferSize_zero_duration:
  "endDiff \<lparr>t_ts = Num 10, t_buffered = [], t_duration = Some (Num 0),
       t_liveGap = PInf, t_readyState = 4\<rparr> = PInf
   \<and> js_sub (Num 0) (Num 10) = Num (- 10)
   \<and> wantedBufferSize \<lparr>t_ts = Num 10, t_buffered = [], t_duration = Some (Num 0),
       t_liveGap = PInf, t_readyState = 4\<rparr> (Num 30) = Num 30
   \<and> js_max (Num 0) (js_min3 (Num 30) PInf (js_sub (Num 0) (Num 10))) = Num 0"
  by (simp add: endDiff_def wantedBufferSize_def js_min3_def js_sub_def)

text \<open>
  C6, amended: \<open>endDiff\<close> is the duration when it is defined and neither 0 nor NaN, else
  infinity, minus the current timestamp; the wanted buffer size is
  \<open>max(0, min(wantedBufferSize, liveGap, endDiff))\<close>. On finite values that is the maximum
  and minimum of the reals, and infinity is neutral for the minimum.
\<close>

theorem injection_window_sizes:
  "endDiff tm = js_sub (case t_duration tm of None \<Rightarrow> PInf
                        | Some dur \<Rightarrow> if dur = NaN \<or> dur = Num 0 then PInf else dur) (t_ts tm)
   \<and> wantedBufferSize tm bufferSize
       = js_max (Num 0) (js_min3 bufferSize (t_liveGap tm) (endDiff tm))
   \<and> (\<forall>t b g dd. t_ts tm = Num t \<and> bufferSize = Num b \<and> t_liveGap tm = Num g
          \<and> t_duration tm = Some (Num dd) \<and> dd \<noteq> 0
        \<longrightarrow> wantedBufferSize tm bufferSize = Num (max 0 (min b (min g (dd - t)))))
   \<and> (\<forall>t b. t_ts tm = Num t \<and> bufferSize = Num b \<and> t_liveGap tm = PInf
          \<and> t_duration tm \<in> {None, Some (Num 0), Some NaN} 
        \<longrightarrow> wantedBufferSize tm bufferSize = Num (max 0 b))"
proof -
  have a: "endDiff tm = js_sub (case t_duration tm of None \<Rightarrow> PInf
                        | Some dur \<Rightarrow> if dur = NaN \<or> dur = Num 0 then PInf else dur) (t_ts tm)"
    by (simp add: endDiff_def duration_or_infinity_cases)
  have b: "wantedBufferSize tm bufferSize
       = js_max (Num 0) (js_min3 bufferSize (t_liveGap tm) (endDiff tm))"
    by (simp add: wantedBufferSize_def)
  have c: "wantedBufferSize tm bufferSize = Num (max 0 (min b (min g (dd - t))))"
    if "t_ts tm = Num t \<and> bufferSize = Num b \<and> t_liveGap tm = Num g
          \<and> t_duration tm = Some (Num dd) \<and> dd \<noteq> 0" for t b g dd
    using that by (simp add: wantedBufferSize_def endDiff_def js_min3_def min.assoc)
  have d: "wantedBufferSize tm bufferSize = Num (max 0 b)"
    if "t_ts tm = Num t \<and> bufferSize = Num b \<and> t_liveGap tm = PInf
          \<and> t_duration tm \<in> {None, Some (Num 0), Some NaN}" for t b
    using that by (auto simp add: wantedBufferSize_def endDiff_def js_min3_def js_sub_def)
  show ?thesis using a b c d by blast
qed

theorem injection_window_sizes_witness:
  "wantedBufferSize \<lparr>t_ts = Num 10, t_buffered = [], t_duration = Some (Num 25),
       t_liveGap = Num 50, t_readyState = 4\<rparr> (Num 30) = Num 15"
  using injection_window_sizes [of "\<lparr>t_ts = Num 10, t_buffered = [], t_duration = Some (Num 25),
       t_liveGap = Num 50, t_readyState = 4\<rparr>" "Num 30", THEN conjunct2, THEN conjunct2,
       THEN conjunct1, rule_format, of 10 30 50 25]
  by simp


section \<open>Recovery from a full sink\<close>









section \<open>The seekings stream\<close>

lemma seeking_filter_iff:
  "seeking_filter tk \<longleftrightarrow>
     o_state tk = Some ''seeking'' \<and>
     (o_bufferGap tk = Some PInf \<or> o_bufferGap tk = Some NInf
      \<or> (\<exists>g. o_bufferGap tk = Some (Num g) \<and> g < - 2))"
proof (cases "o_bufferGap tk")
  case None
  then show ?thesis by (simp add: seeking_filter_def SEEK_GAP_def)
next
  case (Some x)
  then show ?thesis by (cases x) (simp_all add: seeking_filter_def SEEK_GAP_def)
qed

lemma drop_1_snoc:
  "drop (Suc 0) (xs @ [x]) = drop (Suc 0) xs @ (if xs = [] then [] else [x])"
  by (cases xs) simp_all

text \<open>
  C7. Before any tick the seekings stream has emitted its one synthetic element. Each
  further tick adds exactly one emission when its state is \<open>seeking\<close> and its buffer gap
  is infinite or below -2 and an earlier tick already qualified, and adds nothing
  otherwise: the first qualifying tick is skipped. The stream thus holds one element
  more than the qualifying ticks after the first.
\<close>

theorem seekingsSampler_emissions:
  "seekingsSampler [] = [StartTrue]
   \<and> seekingsSampler (ticks @ [tk])
       = seekingsSampler ticks @
         (if (o_state tk = Some ''seeking'' \<and>
              (o_bufferGap tk = Some PInf \<or> o_bufferGap tk = Some NInf
               \<or> (\<exists>g. o_bufferGap tk = Some (Num g) \<and> g < - 2)))
             \<and> (\<exists>u \<in> set ticks. seeking_filter u)
          then [Seeking tk] else [])
   \<and> length (seekingsSampler ticks) = 1 + (length (filter seeking_filter ticks) - 1)"
proof -
  have a: "seekingsSampler [] = [StartTrue]"
    by (simp add: seekingsSampler_def rx_startWith_def rx_map_def rx_skip_def rx_filter_def)
  have ne: "(filter seeking_filter ticks \<noteq> []) = (\<exists>u \<in> set ticks. seeking_filter u)"
    by (simp add: filter_empty_conv)
  have b: "seekingsSampler (ticks @ [tk])
       = seekingsSampler ticks @
         (if seeking_filter tk \<and> (\<exists>u \<in> set ticks. seeking_filter u)
          then [Seeking tk] else [])"
  proof (cases "filter seeking_filter ticks")
    case Nil
    with ne show ?thesis
      by (simp add: seekingsSampler_def rx_startWith_def rx_map_def rx_skip_def rx_filter_def)
  next
    case (Cons f fs)
    with ne show ?thesis
      by (simp add: seekingsSampler_def rx_startWith_def rx_map_def rx_skip_def rx_filter_def)
  qed
  have c: "length (seekingsSampler ticks) = 1 + (length (filter seeking_filter ticks) - 1)"
    by (simp add: seekingsSampler_def rx_startWith_def rx_map_def rx_skip_def rx_filter_def)
  show ?thesis using a b c by (simp only: seeking_filter_iff [of tk, symmetric] simp_thms)
qed

theorem seekingsSampler_emissions_witness:
  "length (seekingsSampler
     [\<lparr>o_state = Some ''seeking'', o_bufferGap = Some PInf, o_currentTime = Some (Num 0),
       o_liveGap = None, o_others = Map.empty\<rparr>,
      \<lparr>o_state = Some ''playing'', o_bufferGap = Some (Num 3), o_currentTime = Some (Num 1),
       o_liveGap = None, o_others = Map.empty\<rparr>,
      \<lparr>o_state = Some ''seeking'', o_bufferGap = Some PInf, o_currentTime = Some (Num 50),
       o_liveGap = None, o_others = Map.empty\<rparr>]) = 2"
  using seekingsSampler_emissions [of
     "[\<lparr>o_state = Some ''seeking'', o_bufferGap = Some PInf, o_currentTime = Some (Num 0),
       o_liveGap = None, o_others = Map.empty\<rparr>,
      \<lparr>o_state = Some ''playing'', o_bufferGap = Some (Num 3), o_currentTime = Some (Num 1),
       o_liveGap = None, o_others = Map.empty\<rparr>,
      \<lparr>o_state = Some ''seeking'', o_bufferGap = Some PInf, o_currentTime = Some (Num 50),
       o_liveGap = None, o_others = Map.empty\<rparr>]", THEN conjunct2, THEN conjunct2]
  by (simp add: seeking_filter_def)

section \<open>The augmented timings of the two versions\<close>

lemma objectAssign_empty: "objectAssign empty_object tk = tk"
  by (cases tk) (simp add: objectAssign_def empty_object_def assign_property_def split: option.splits)

lemma augment_js_eq:
  "augment_js gm mf tk = tk\<lparr>o_liveGap := Some (liveGap_of gm mf tk)\<rparr>"
  by (simp add: augment_js_def objectAssign_empty)

lemma augment_ts_eq:
  "augment_ts gm mf tk =
     (case o_liveGap tk of None \<Rightarrow> tk\<lparr>o_liveGap := Some (liveGap_of gm mf tk)\<rparr> | Some g \<Rightarrow> tk)"
  by (cases tk) (simp add: augment_ts_def objectAssign_def empty_object_def assign_property_def split: option.splits)

text \<open>
  C10, as stated, for every input tick: a tick that already has a \<open>liveGap\<close> of 5 gets
  the computed gap (infinity, the manifest not being live) from the JavaScript version,
  which assigns \<open>liveGap\<close> after cloning, and keeps 5 in the TypeScript version, which
  copies the tick over the object holding the computed gap.
\<close>

theorem augmented_timings_differ:
  "augment_js (\<lambda>mf. Num 100) \<lparr>isLive = False\<rparr>
     \<lparr>o_state = Some ''playing'', o_bufferGap = Some (Num 3), o_currentTime = Some (Num 10),
      o_liveGap = Some (Num 5), o_others = Map.empty\<rparr>
   = \<lparr>o_state = Some ''playing'', o_bufferGap = Some (Num 3), o_currentTime = Some (Num 10),
      o_liveGap = Some PInf, o_others = Map.empty\<rparr>
   \<and> augment_ts (\<lambda>mf. Num 100) \<lparr>isLive = False\<rparr>
     \<lparr>o_state = Some ''playing'', o_bufferGap = Some (Num 3), o_currentTime = Some (Num 10),
      o_liveGap = Some (Num 5), o_others = Map.empty\<rparr>
   = \<lparr>o_state = Some ''playing'', o_bufferGap = Some (Num 3), o_currentTime = Some (Num 10),
      o_liveGap = Some (Num 5), o_others = Map.empty\<rparr>"
  by (simp add: augment_js_eq augment_ts_eq liveGap_of_def)

text \<open>
  C10, amended: on ticks that have no \<open>liveGap\<close> property of their own, as the type of
  the input ticks declares, both versions compute the same augmented timings: each tick
  with \<open>liveGap\<close> set to \<open>getMaximumBufferPosition(manifest) - currentTime\<close> when the
  manifest is live and to infinity otherwise, every other property unchanged.
\<close>

theorem augmented_timings_agree:
  assumes "\<forall>tk \<in> set timings. o_liveGap tk = None"
  shows "fst (createTimingsAndSeekingsObservables_ts gm mf timings)
           = fst (createTimingsAndSeekingsObservables gm mf timings)
         \<and> fst (createTimingsAndSeekingsObservables gm mf timings)
           = map (\<lambda>tk. tk\<lparr>o_liveGap :=
                    Some (if isLive mf
                          then js_sub (gm mf) (js_toNumber (o_currentTime tk))
                          else PInf)\<rparr>) timings"
proof -
  have js: "fst (createTimingsAndSeekingsObservables gm mf timings)
           = map (\<lambda>tk. tk\<lparr>o_liveGap := Some (liveGap_of gm mf tk)\<rparr>) timings"
    by (simp add: createTimingsAndSeekingsObservables_def rx_map_def augment_js_eq Let_def)
  have "map (augment_ts gm mf) timings
           = map (\<lambda>tk. tk\<lparr>o_liveGap := Some (liveGap_of gm mf tk)\<rparr>) timings"
    using assms by (simp add: augment_ts_eq)
  then have ts: "fst (createTimingsAndSeekingsObservables_ts gm mf timings)
           = map (\<lambda>tk. tk\<lparr>o_liveGap := Some (liveGap_of gm mf tk)\<rparr>) timings"
    by (simp add: createTimingsAndSeekingsObservables_ts_def rx_map_def Let_def)
  show ?thesis using js ts by (simp add: liveGap_of_def)
qed

theorem augmented_timings_agree_witness:
  "fst (createTimingsAndSeekingsObservables_ts (\<lambda>mf. Num 100) \<lparr>isLive = True\<rparr>
     [\<lparr>o_state = Some ''playing'', o_bufferGap = Some (Num 3), o_currentTime = Some (Num 10),
       o_liveGap = None, o_others = Map.empty\<rparr>])
   = [\<lparr>o_state = Some ''playing'', o_bufferGap = Some (Num 3), o_currentTime = Some (Num 10),
       o_liveGap = Some (Num 90), o_others = Map.empty\<rparr>]"
  using augmented_timings_agree [of "[\<lparr>o_state = Some ''playing'', o_bufferGap = Some (Num 3), o_currentTime = Some (Num 10),
       o_liveGap = None, o_others = Map.empty\<rparr>]" "(\<lambda>mf. Num 100)" "\<lparr>isLive = True\<rparr>"]
  by simp

section \<open>Bitrates set and read back\<close>

text \<open>
  C9. The claim: \<open>getManualBitrate(t)\<close> after \<open>setManualBitrate(t, b)\<close> returns \<open>b\<close>, also
  when no chooser has been made for \<open>t\<close>. On a new manager, which has no chooser, the
  code stores the bitrate 500 under \<open>initialBitrates.video\<close> and reads
  \<open>manualBitrates.video\<close> back, which is still undefined; \<open>setMaxAutoBitrate\<close>, its
  sibling, stores under the property that \<open>getMaxAutoBitrate\<close> reads.
\<close>

theorem setManualBitrate_without_chooser:
  "(case setManualBitrate True
           (new_ABRManager \<lparr>initialBitrates = Map.empty, manualBitrates = Map.empty,
                             maxAutoBitrates = Map.empty\<rparr>) ''video'' (Num 500) of
      Inl err \<Rightarrow> False
    | Inr this \<Rightarrow>
        getManualBitrate True this ''video'' = Inr None
        \<and> initialBitrates (chooserInstanceOptions this) ''video'' = Some (Num 500))
   \<and> (case setMaxAutoBitrate True
           (new_ABRManager \<lparr>initialBitrates = Map.empty, manualBitrates = Map.empty,
                             maxAutoBitrates = Map.empty\<rparr>) ''video'' (Num 500) of
        Inl err \<Rightarrow> False
      | Inr this \<Rightarrow> getMaxAutoBitrate True this ''video'' = Inr (Some (Num 500)))"
  by (simp add: setManualBitrate_def getManualBitrate_def setMaxAutoBitrate_def
      getMaxAutoBitrate_def new_ABRManager_def dev_assertType_def assertType_def
      KNOWN_TYPES_def)

section \<open>Adding segment timings to the timeline\<close>

lemma getTimelineRangeEnd_fin:
  "e_ts e = Num a \<Longrightarrow> e_d e = Num b \<Longrightarrow> e_r e = Num c
   \<Longrightarrow> getTimelineRangeEnd e = Num (a + (c + 1) * b)"
  by (simp add: getTimelineRangeEnd_def)

text \<open>The last entry of a timeline, as the code reads it.\<close>

lemma nth_last: "xs \<noteq> [] \<Longrightarrow> xs ! (length xs - Suc 0) = last xs"
  by (simp add: last_conv_nth)

lemma scaledNewSegment_cong:
  "i_timescale idx1 = i_timescale idx \<Longrightarrow> scaledNewSegment idx1 n = scaledNewSegment idx n"
  by (simp add: scaledNewSegment_def same_timescale_def rescale_def)

lemma shouldDeductNextSegment_cong:
  "i_timescale idx1 = i_timescale idx
   \<Longrightarrow> shouldDeductNextSegment idx1 n c = shouldDeductNextSegment idx n c"
  by (cases c)
    (simp_all add: shouldDeductNextSegment_def scaledCurrentTime_def scaledNewSegment_def
      same_timescale_def rescale_def)

lemma addSegmentInfos_deduction:
  assumes ne: "i_timeline idx \<noteq> []"
    and deduct: "shouldDeductNextSegment idx newSegment currentSegment"
    and new: "scaledNewSegment idx newSegment = (Num nt, Num nd)"
    and lst: "e_ts (last (i_timeline idx)) = Num lts" "e_d (last (i_timeline idx)) = Num ld"
      "e_r (last (i_timeline idx)) = Num lr"
  shows "nt + nd \<le> lts + ld * lr
            \<Longrightarrow> addSegmentInfos idx newSegment currentSegment = Inr (False, idx)"
    and "lts + ld * lr < nt + nd
            \<Longrightarrow> \<exists>tl1. addSegmentInfos idx newSegment currentSegment
                 = Inr (True, idx\<lparr>i_timeline := tl1 @
                     [\<lparr>e_ts = Num (nt + nd), e_d = Num (- 1), e_r = Num 0, e_t = None,
                       e_range = None\<rparr>]\<rparr>)"
proof -
  show "nt + nd \<le> lts + ld * lr
            \<Longrightarrow> addSegmentInfos idx newSegment currentSegment = Inr (False, idx)"
    using assms by (simp add: addSegmentInfos_def nth_last Let_def)
  assume "lts + ld * lr < nt + nd"
  then have "\<exists>tl1. snd (projr (addSegmentInfos idx newSegment currentSegment))
                 = idx\<lparr>i_timeline := tl1 @
                     [\<lparr>e_ts = Num (nt + nd), e_d = Num (- 1), e_r = Num 0, e_t = None,
                       e_range = None\<rparr>]\<rparr>
        \<and> addSegmentInfos idx newSegment currentSegment
            = Inr (True, snd (projr (addSegmentInfos idx newSegment currentSegment)))"
    using assms by (simp add: addSegmentInfos_def nth_last Let_def) blast
  then show "\<exists>tl1. addSegmentInfos idx newSegment currentSegment
                 = Inr (True, idx\<lparr>i_timeline := tl1 @
                     [\<lparr>e_ts = Num (nt + nd), e_d = Num (- 1), e_r = Num 0, e_t = None,
                       e_range = None\<rparr>]\<rparr>)"
    by metis
qed

lemma addSegmentInfos_append:
  assumes ne: "i_timeline idx \<noteq> []"
    and deduct: "\<not> shouldDeductNextSegment idx newSegment currentSegment"
    and new: "scaledNewSegment idx newSegment = (Num nt, Num nd)"
    and lst: "e_ts (last (i_timeline idx)) = Num lts" "e_d (last (i_timeline idx)) = Num ld"
      "e_r (last (i_timeline idx)) = Num lr"
  shows "addSegmentInfos idx newSegment currentSegment =
     (if lts + (lr + 1) * ld \<le> nt
      then (if ld = nd
            then Inr (True, idx\<lparr>i_timeline := butlast (i_timeline idx) @
                     [(last (i_timeline idx))\<lparr>e_r := Num (lr + 1)\<rparr>]\<rparr>)
            else Inr (True, idx\<lparr>i_timeline := i_timeline idx @
                     [\<lparr>e_ts = Num nt, e_d = Num nd, e_r = Num 0, e_t = None,
                       e_range = None\<rparr>]\<rparr>))
      else Inr (False, idx))"
proof -
  have upd: "(i_timeline idx)[length (i_timeline idx) - Suc 0 := x] = butlast (i_timeline idx) @ [x]" for x
    using ne by (cases "i_timeline idx" rule: rev_cases) simp_all
  show ?thesis
    using assms
    by (simp add: addSegmentInfos_def nth_last Let_def getTimelineRangeEnd_fin upd)
qed

lemma addSegmentInfos_empty: "i_timeline idx = [] \<Longrightarrow> addSegmentInfos idx n c = Inl TypeError"
  by (simp add: addSegmentInfos_def Let_def split: prod.splits)




text \<open>
  C2, as the spec states it, for every pair: the first call need not return true (a
  segment at 0 on a timeline that ends at 4 is refused at once), and when a segment of
  the last entry's duration starts well after the end of the timeline (at 10, the
  timeline ending at 4) both calls return true, each incrementing \<open>r\<close>.
\<close>

theorem addSegmentInfos_not_idempotent:
  "addSegmentInfos
     \<lparr>i_timeline = [\<lparr>e_ts = Num 0, e_d = Num 4, e_r = Num 0, e_t = None, e_range = None\<rparr>],
      i_timescale = Some (Num 1), i_presentationTimeOffset = None, i_media = ''m'',
      i_startNumber = None\<rparr>
     \<lparr>si_time = Num 0, si_duration = Num 4, si_timescale = Num 1\<rparr> None
   = Inr (False,
       \<lparr>i_timeline = [\<lparr>e_ts = Num 0, e_d = Num 4, e_r = Num 0, e_t = None, e_range = None\<rparr>],
        i_timescale = Some (Num 1), i_presentationTimeOffset = None, i_media = ''m'',
        i_startNumber = None\<rparr>)
   \<and> addSegmentInfos
     \<lparr>i_timeline = [\<lparr>e_ts = Num 0, e_d = Num 4, e_r = Num 0, e_t = None, e_range = None\<rparr>],
      i_timescale = Some (Num 1), i_presentationTimeOffset = None, i_media = ''m'',
      i_startNumber = None\<rparr>
     \<lparr>si_time = Num 10, si_duration = Num 4, si_timescale = Num 1\<rparr> None
   = Inr (True,
       \<lparr>i_timeline = [\<lparr>e_ts = Num 0, e_d = Num 4, e_r = Num 1, e_t = None, e_range = None\<rparr>],
        i_timescale = Some (Num 1), i_presentationTimeOffset = None, i_media = ''m'',
        i_startNumber = None\<rparr>)
   \<and> addSegmentInfos
     \<lparr>i_timeline = [\<lparr>e_ts = Num 0, e_d = Num 4, e_r = Num 1, e_t = None, e_range = None\<rparr>],
      i_timescale = Some (Num 1), i_presentationTimeOffset = None, i_media = ''m'',
      i_startNumber = None\<rparr>
     \<lparr>si_time = Num 10, si_duration = Num 4, si_timescale = Num 1\<rparr> None
   = Inr (True,
       \<lparr>i_timeline = [\<lparr>e_ts = Num 0, e_d = Num 4, e_r = Num 2, e_t = None, e_range = None\<rparr>],
        i_timescale = Some (Num 1), i_presentationTimeOffset = None, i_media = ''m'',
        i_startNumber = None\<rparr>)"
  by (simp add: addSegmentInfos_def scaledNewSegment_def same_timescale_def
      shouldDeductNextSegment_def scaledCurrentTime_def getTimelineRangeEnd_def Let_def)

text \<open>
  C2, amended: let the first call return true, on finite numbers. In deduction mode,
  and in append mode when the duration of the new segment is positive and, if it is the
  duration of the last entry, the segment starts less than one duration after the end of
  the timeline, the second call with the same pair returns false and leaves the
  timeline as the first call left it.
\<close>

theorem addSegmentInfos_twice:
  assumes first: "addSegmentInfos idx newSegment currentSegment = Inr (True, idx1)"
    and new: "scaledNewSegment idx newSegment = (Num nt, Num nd)"
    and lst: "e_ts (last (i_timeline idx)) = Num lts" "e_d (last (i_timeline idx)) = Num ld"
      "e_r (last (i_timeline idx)) = Num lr"
    and mode: "shouldDeductNextSegment idx newSegment currentSegment
               \<or> (0 < nd \<and> (ld = nd \<longrightarrow> nt < lts + (lr + 1) * ld + nd))"
  shows "addSegmentInfos idx1 newSegment currentSegment = Inr (False, idx1)"
proof -
  have ne: "i_timeline idx \<noteq> []"
    using first addSegmentInfos_empty by fastforce
  show ?thesis
  proof (cases "shouldDeductNextSegment idx newSegment currentSegment")
    case True
    have gt: "lts + ld * lr < nt + nd"
    proof (rule ccontr)
      assume "\<not> lts + ld * lr < nt + nd"
      then have "addSegmentInfos idx newSegment currentSegment = Inr (False, idx)"
        using addSegmentInfos_deduction(1) [OF ne True new lst] by simp
      with first show False by simp
    qed
    then obtain tl1 where idx1: "idx1 = idx\<lparr>i_timeline := tl1 @
            [\<lparr>e_ts = Num (nt + nd), e_d = Num (- 1), e_r = Num 0, e_t = None,
              e_range = None\<rparr>]\<rparr>"
      using addSegmentInfos_deduction(2) [OF ne True new lst] first by auto
    have tsc: "i_timescale idx1 = i_timescale idx" by (simp add: idx1)
    show ?thesis
    proof (rule addSegmentInfos_deduction(1))
      show "i_timeline idx1 \<noteq> []" by (simp add: idx1)
      show "shouldDeductNextSegment idx1 newSegment currentSegment"
        using True shouldDeductNextSegment_cong [OF tsc] by simp
      show "scaledNewSegment idx1 newSegment = (Num nt, Num nd)"
        using new scaledNewSegment_cong [OF tsc] by simp
      show "e_ts (last (i_timeline idx1)) = Num (nt + nd)" by (simp add: idx1)
      show "e_d (last (i_timeline idx1)) = Num (- 1)" by (simp add: idx1)
      show "e_r (last (i_timeline idx1)) = Num 0" by (simp add: idx1)
      show "nt + nd \<le> nt + nd + - 1 * 0" by simp
    qed
  next
    case False
    note app = addSegmentInfos_append [OF ne False new lst]
    from mode False have pos: "0 < nd" and near: "ld = nd \<longrightarrow> nt < lts + (lr + 1) * ld + nd"
      by simp_all
    have ge: "lts + (lr + 1) * ld \<le> nt"
      using app first by (auto split: if_splits)
    show ?thesis
    proof (cases "ld = nd")
      case True
      with app ge first have idx1: "idx1 = idx\<lparr>i_timeline := butlast (i_timeline idx) @
                     [(last (i_timeline idx))\<lparr>e_r := Num (lr + 1)\<rparr>]\<rparr>"
        by simp
      have tsc: "i_timescale idx1 = i_timescale idx" by (simp add: idx1)
      have "addSegmentInfos idx1 newSegment currentSegment =
         (if lts + (lr + 1 + 1) * ld \<le> nt
          then (if ld = nd
            then Inr (True, idx1\<lparr>i_timeline := butlast (i_timeline idx1) @
                     [(last (i_timeline idx1))\<lparr>e_r := Num (lr + 1 + 1)\<rparr>]\<rparr>)
            else Inr (True, idx1\<lparr>i_timeline := i_timeline idx1 @
                     [\<lparr>e_ts = Num nt, e_d = Num nd, e_r = Num 0, e_t = None,
                       e_range = None\<rparr>]\<rparr>))
          else Inr (False, idx1))"
      proof (rule addSegmentInfos_append)
        show "i_timeline idx1 \<noteq> []" by (simp add: idx1)
        show "\<not> shouldDeductNextSegment idx1 newSegment currentSegment"
          using False shouldDeductNextSegment_cong [OF tsc] by simp
        show "scaledNewSegment idx1 newSegment = (Num nt, Num nd)"
          using new scaledNewSegment_cong [OF tsc] by simp
        show "e_ts (last (i_timeline idx1)) = Num lts" by (simp add: idx1 lst)
        show "e_d (last (i_timeline idx1)) = Num ld" by (simp add: idx1 lst)
        show "e_r (last (i_timeline idx1)) = Num (lr + 1)" by (simp add: idx1)
      qed
      moreover have "\<not> lts + (lr + 1 + 1) * ld \<le> nt"
        using near True by (simp add: algebra_simps)
      ultimately show ?thesis by simp
    next
      case False
      note neq = False
      with app ge first have idx1: "idx1 = idx\<lparr>i_timeline := i_timeline idx @
                     [\<lparr>e_ts = Num nt, e_d = Num nd, e_r = Num 0, e_t = None,
                       e_range = None\<rparr>]\<rparr>"
        by simp
      have tsc: "i_timescale idx1 = i_timescale idx" by (simp add: idx1)
      have "addSegmentInfos idx1 newSegment currentSegment =
         (if nt + (0 + 1) * nd \<le> nt
          then (if nd = nd
            then Inr (True, idx1\<lparr>i_timeline := butlast (i_timeline idx1) @
                     [(last (i_timeline idx1))\<lparr>e_r := Num (0 + 1)\<rparr>]\<rparr>)
            else Inr (True, idx1\<lparr>i_timeline := i_timeline idx1 @
                     [\<lparr>e_ts = Num nt, e_d = Num nd, e_r = Num 0, e_t = None,
                       e_range = None\<rparr>]\<rparr>))
          else Inr (False, idx1))"
      proof (rule addSegmentInfos_append)
        show "i_timeline idx1 \<noteq> []" by (simp add: idx1)
        show "\<not> shouldDeductNextSegment idx1 newSegment currentSegment"
          using \<open>\<not> shouldDeductNextSegment idx newSegment currentSegment\<close>
            shouldDeductNextSegment_cong [OF tsc] by simp
        show "scaledNewSegment idx1 newSegment = (Num nt, Num nd)"
          using new scaledNewSegment_cong [OF tsc] by simp
        show "e_ts (last (i_timeline idx1)) = Num nt" by (simp add: idx1)
        show "e_d (last (i_timeline idx1)) = Num nd" by (simp add: idx1)
        show "e_r (last (i_timeline idx1)) = Num 0" by (simp add: idx1)
      qed
      with pos show ?thesis by simp
    qed
  qed
qed

theorem addSegmentInfos_twice_witness:
  "addSegmentInfos
     \<lparr>i_timeline = [\<lparr>e_ts = Num 100, e_d = Num 4, e_r = Num 0, e_t = None, e_range = None\<rparr>,
                    \<lparr>e_ts = Num 104, e_d = Num (- 1), e_r = Num 0, e_t = None, e_range = None\<rparr>],
      i_timescale = Some (Num 1), i_presentationTimeOffset = None, i_media = ''m'',
      i_startNumber = None\<rparr>
     \<lparr>si_time = Num 100, si_duration = Num 4, si_timescale = Num 1\<rparr>
     (Some \<lparr>si_time = Num 100, si_duration = Num 0, si_timescale = Num 1\<rparr>)
   = Inr (False,
     \<lparr>i_timeline = [\<lparr>e_ts = Num 100, e_d = Num 4, e_r = Num 0, e_t = None, e_range = None\<rparr>,
                    \<lparr>e_ts = Num 104, e_d = Num (- 1), e_r = Num 0, e_t = None, e_range = None\<rparr>],
      i_timescale = Some (Num 1), i_presentationTimeOffset = None, i_media = ''m'',
      i_startNumber = None\<rparr>)"
  using addSegmentInfos_twice [of
     "\<lparr>i_timeline = [\<lparr>e_ts = Num 100, e_d = Num (- 1), e_r = Num 0, e_t = None, e_range = None\<rparr>],
      i_timescale = Some (Num 1), i_presentationTimeOffset = None, i_media = ''m'',
      i_startNumber = None\<rparr>"
     "\<lparr>si_time = Num 100, si_duration = Num 4, si_timescale = Num 1\<rparr>"
     "Some \<lparr>si_time = Num 100, si_duration = Num 0, si_timescale = Num 1\<rparr>"
     "\<lparr>i_timeline = [\<lparr>e_ts = Num 100, e_d = Num 4, e_r = Num 0, e_t = None, e_range = None\<rparr>,
                    \<lparr>e_ts = Num 104, e_d = Num (- 1), e_r = Num 0, e_t = None, e_range = None\<rparr>],
      i_timescale = Some (Num 1), i_presentationTimeOffset = None, i_media = ''m'',
      i_startNumber = None\<rparr>"
     100 4 100 "- 1" 0]
  by (simp add: addSegmentInfos_def scaledNewSegment_def same_timescale_def
      shouldDeductNextSegment_def scaledCurrentTime_def Let_def)

section \<open>Looking an entry up, and discontinuities\<close>

text \<open>
  The search of \<open>getSegmentIndex\<close> on a timeline sorted by \<open>ts\<close>: it returns the last
  entry that starts strictly before the given tick, or the first entry.
\<close>

lemma getSegmentIndex_loop_bounds:
  "\<forall>e \<in> set tline. is_fin (e_ts e) \<Longrightarrow> sorted (map (\<lambda>e. val (e_ts e)) tline)
     \<Longrightarrow> low \<le> high \<Longrightarrow> high \<le> length tline
     \<Longrightarrow> \<forall>j<low. val (e_ts (tline ! j)) < x
     \<Longrightarrow> \<forall>j. high \<le> j \<and> j < length tline \<longrightarrow> x \<le> val (e_ts (tline ! j))
     \<Longrightarrow> (\<forall>j < getSegmentIndex_loop tline (Num x) low high. val (e_ts (tline ! j)) < x)
         \<and> (\<forall>j. getSegmentIndex_loop tline (Num x) low high \<le> j \<and> j < length tline
                \<longrightarrow> x \<le> val (e_ts (tline ! j)))
         \<and> getSegmentIndex_loop tline (Num x) low high \<le> length tline"
proof (induction tline "Num x" low high rule: getSegmentIndex_loop.induct)
  case (1 tline low high)
  note fin = "1.prems"(1) and srt = "1.prems"(2) and lh = "1.prems"(3) and hl = "1.prems"(4)
    and lo = "1.prems"(5) and hi = "1.prems"(6)
  show ?case
  proof (cases "low < high")
    case False
    then have "getSegmentIndex_loop tline (Num x) low high = low"
      by (simp add: getSegmentIndex_loop.simps [of tline "Num x" low high])
    with False lh hl lo hi show ?thesis by simp
  next
    case True
    define mid where "mid = (low + high) div 2"
    have mid: "low \<le> mid" "mid < high" "mid < length tline"
      using True hl by (simp_all add: mid_def)
    have "is_fin (e_ts (tline ! mid))"
      using fin mid(3) by simp
    then have fm: "e_ts (tline ! mid) = Num (val (e_ts (tline ! mid)))"
      by (rule is_fin_val)
    have mono: "val (e_ts (tline ! i)) \<le> val (e_ts (tline ! j))" if "i \<le> j" "j < length tline" for i j
      using srt that sorted_nth_mono [of "map (\<lambda>e. val (e_ts e)) tline" i j] by simp
    show ?thesis
    proof (cases "val (e_ts (tline ! mid)) < x")
      case less: True
      have lt: "js_lt (e_ts (tline ! mid)) (Num x)"
        using fm less by (metis js_lt.simps(1))
      have step: "getSegmentIndex_loop tline (Num x) low high
                  = getSegmentIndex_loop tline (Num x) (mid + 1) high"
        using True lt by (simp add: getSegmentIndex_loop.simps [of tline "Num x" low high] mid_def Let_def)
      have below: "\<forall>j<mid + 1. val (e_ts (tline ! j)) < x"
      proof (intro allI impI)
        fix j assume "j < mid + 1"
        then have "val (e_ts (tline ! j)) \<le> val (e_ts (tline ! mid))"
          using mono [of j mid] mid(3) by simp
        with less show "val (e_ts (tline ! j)) < x" by simp
      qed
      have "(\<forall>j < getSegmentIndex_loop tline (Num x) (mid + 1) high. val (e_ts (tline ! j)) < x)
         \<and> (\<forall>j. getSegmentIndex_loop tline (Num x) (mid + 1) high \<le> j \<and> j < length tline
                \<longrightarrow> x \<le> val (e_ts (tline ! j)))
         \<and> getSegmentIndex_loop tline (Num x) (mid + 1) high \<le> length tline"
      proof (rule "1.hyps"(1) [OF True mid_def lt fin srt])
        show "mid + 1 \<le> high" using mid by simp
        show "high \<le> length tline" using hl .
        show "\<forall>j<mid + 1. val (e_ts (tline ! j)) < x" using below .
        show "\<forall>j. high \<le> j \<and> j < length tline \<longrightarrow> x \<le> val (e_ts (tline ! j))"
          using hi .
      qed
      with step show ?thesis by simp
    next
      case geq: False
      have nlt: "\<not> js_lt (e_ts (tline ! mid)) (Num x)"
        using fm geq by (metis js_lt.simps(1))
      have step: "getSegmentIndex_loop tline (Num x) low high
                  = getSegmentIndex_loop tline (Num x) low mid"
        using True nlt by (simp add: getSegmentIndex_loop.simps [of tline "Num x" low high] mid_def Let_def)
      have above: "\<forall>j. mid \<le> j \<and> j < length tline \<longrightarrow> x \<le> val (e_ts (tline ! j))"
      proof (intro allI impI)
        fix j assume "mid \<le> j \<and> j < length tline"
        then have "val (e_ts (tline ! mid)) \<le> val (e_ts (tline ! j))"
          using mono [of mid j] by simp
        with geq show "x \<le> val (e_ts (tline ! j))" by simp
      qed
      have "(\<forall>j < getSegmentIndex_loop tline (Num x) low mid. val (e_ts (tline ! j)) < x)
         \<and> (\<forall>j. getSegmentIndex_loop tline (Num x) low mid \<le> j \<and> j < length tline
                \<longrightarrow> x \<le> val (e_ts (tline ! j)))
         \<and> getSegmentIndex_loop tline (Num x) low mid \<le> length tline"
      proof (rule "1.hyps"(2) [OF True mid_def nlt fin srt])
        show "low \<le> mid" using mid by simp
        show "mid \<le> length tline" using mid by simp
        show "\<forall>j<low. val (e_ts (tline ! j)) < x" using lo .
        show "\<forall>j. mid \<le> j \<and> j < length tline \<longrightarrow> x \<le> val (e_ts (tline ! j))"
          using above .
      qed
      with step show ?thesis by simp
    qed
  qed
qed

lemma getSegmentIndex_found:
  assumes fin: "\<forall>e \<in> set (i_timeline idx). is_fin (e_ts e)"
    and srt: "sorted (map (\<lambda>e. val (e_ts e)) (i_timeline idx))"
    and i: "i < length (i_timeline idx)"
    and before: "0 < i \<longrightarrow> val (e_ts (i_timeline idx ! i)) < x"
    and after: "\<forall>j. i < j \<and> j < length (i_timeline idx) \<longrightarrow> x \<le> val (e_ts (i_timeline idx ! j))"
  shows "getSegmentIndex idx (Num x) = i"
proof -
  define k where "k = getSegmentIndex_loop (i_timeline idx) (Num x) 0 (length (i_timeline idx))"
  have inv: "(\<forall>j < k. val (e_ts (i_timeline idx ! j)) < x)
         \<and> (\<forall>j. k \<le> j \<and> j < length (i_timeline idx) \<longrightarrow> x \<le> val (e_ts (i_timeline idx ! j)))
         \<and> k \<le> length (i_timeline idx)"
    unfolding k_def by (rule getSegmentIndex_loop_bounds [OF fin srt]) simp_all
  have up: "k \<le> Suc i"
  proof (rule ccontr)
    assume "\<not> k \<le> Suc i"
    then have lt: "Suc i < k" by simp
    with inv have "val (e_ts (i_timeline idx ! Suc i)) < x" by blast
    moreover have "x \<le> val (e_ts (i_timeline idx ! Suc i))"
      using after lt inv by simp
    ultimately show False by simp
  qed
  have low: "0 < i \<longrightarrow> i < k"
  proof
    assume pos: "0 < i"
    show "i < k"
    proof (rule ccontr)
      assume "\<not> i < k"
      then have "x \<le> val (e_ts (i_timeline idx ! i))" using inv i by simp
      with before pos show False by simp
    qed
  qed
  have "(if 0 < k then k - 1 else k) = i"
    using up low by (cases "0 < i") auto
  then show ?thesis by (simp add: getSegmentIndex_def k_def [symmetric] Let_def)
qed

text \<open>
  C8. The claim: \<open>checkDiscontinuity\<close> returns -1 when the time is not positive, and
  otherwise the start of the next entry, in seconds, if and only if the time lies within
  the last tick of the entry containing it and the next entry does not start at the end
  of that entry. In the timeline [{ts: 0, d: 15}, {ts: 20, d: 1}, {ts: 50, d: 20}] with
  timescale 2, the time 10 is tick 20, the only tick of the entry from 20 to 21, which
  is the only entry containing it; the next entry starts at 50 and not at 21, so that
  25 is due. \<open>getSegmentIndex\<close>, which is to return the index of the segment containing
  the time, returns 0, the entry from 0 to 15: its search compares the starts with a
  strict \<open><\<close>, and an entry is not found at its own first tick. The code finds the time
  beyond the end of that entry and returns -1, where at the time 10.5, tick 21, it
  returns 25.
\<close>

theorem checkDiscontinuity_at_entry_start:
  "checkDiscontinuity
     \<lparr>i_timeline = [\<lparr>e_ts = Num 0, e_d = Num 15, e_r = Num 0, e_t = None, e_range = None\<rparr>,
                    \<lparr>e_ts = Num 20, e_d = Num 1, e_r = Num 0, e_t = None, e_range = None\<rparr>,
                    \<lparr>e_ts = Num 50, e_d = Num 20, e_r = Num 0, e_t = None, e_range = None\<rparr>],
      i_timescale = Some (Num 2), i_presentationTimeOffset = None, i_media = ''m'',
      i_startNumber = None\<rparr> (Num 10) = Num (- 1)
   \<and> getSegmentIndex
     \<lparr>i_timeline = [\<lparr>e_ts = Num 0, e_d = Num 15, e_r = Num 0, e_t = None, e_range = None\<rparr>,
                    \<lparr>e_ts = Num 20, e_d = Num 1, e_r = Num 0, e_t = None, e_range = None\<rparr>,
                    \<lparr>e_ts = Num 50, e_d = Num 20, e_r = Num 0, e_t = None, e_range = None\<rparr>],
      i_timescale = Some (Num 2), i_presentationTimeOffset = None, i_media = ''m'',
      i_startNumber = None\<rparr> (Num 20) = 0
   \<and> js_mul (Num 10) (Num 2) = Num 20
   \<and> getTimelineRangeEnd
        \<lparr>e_ts = Num 0, e_d = Num 15, e_r = Num 0, e_t = None, e_range = None\<rparr> = Num 15
   \<and> js_lt (Num 15) (Num 20)
   \<and> js_le (Num 20) (Num 20)
   \<and> getTimelineRangeEnd
        \<lparr>e_ts = Num 20, e_d = Num 1, e_r = Num 0, e_t = None, e_range = None\<rparr> = Num 21
   \<and> js_lt (Num 20) (Num 21)
   \<and> js_lt (js_sub (Num 21) (Num 20)) (Num 2)
   \<and> \<not> js_eq (Num 50) (Num 21)
   \<and> js_div (Num 50) (Num 2) = Num 25
   \<and> checkDiscontinuity
     \<lparr>i_timeline = [\<lparr>e_ts = Num 0, e_d = Num 15, e_r = Num 0, e_t = None, e_range = None\<rparr>,
                    \<lparr>e_ts = Num 20, e_d = Num 1, e_r = Num 0, e_t = None, e_range = None\<rparr>,
                    \<lparr>e_ts = Num 50, e_d = Num 20, e_r = Num 0, e_t = None, e_range = None\<rparr>],
      i_timescale = Some (Num 2), i_presentationTimeOffset = None, i_media = ''m'',
      i_startNumber = None\<rparr> (Num (21 / 2)) = Num 25"
  by (simp add: checkDiscontinuity_def getSegmentIndex_def getSegmentIndex_loop.simps
      getTimelineRangeEnd_def Let_def)

section \<open>The segments of a range\<close>

lemma getSegments_while_finite:
  assumes e: "e_ts e = Num a" "e_d e = Num dd" and dd: "0 < dd"
  shows "rp - k < real m \<Longrightarrow>
     \<exists>c n new. getSegments_while repId idx e (Num tt) (Num rp) (Num k) number segs
                 = Some (c, n, segs @ new)
              \<and> entry_segments repId (a + k * dd) (a + rp * dd) tt dd new"
proof (induction m arbitrary: k number segs)
  case 0
  then have "\<not> k \<le> rp" by simp
  then have "getSegments_while repId idx e (Num tt) (Num rp) (Num k) number segs
           = Some (a + k * dd < tt, number, segs)"
    by (subst getSegments_while.simps) (simp add: e)
  then show ?case by (simp add: entry_segments_def)
next
  case (Suc m)
  show ?case
  proof (cases "a + k * dd < tt \<and> k \<le> rp")
    case False
    then have "getSegments_while repId idx e (Num tt) (Num rp) (Num k) number segs
           = Some (a + k * dd < tt, number, segs)"
      by (subst getSegments_while.simps) (auto simp add: e)
    then show ?thesis by (simp add: entry_segments_def)
  next
    case True
    define s0 where "s0 = timed_segment repId idx e (Num (a + k * dd)) (js_add number (Num 1))"
    have step: "getSegments_while repId idx e (Num tt) (Num rp) (Num k) number segs
           = getSegments_while repId idx e (Num tt) (Num rp) (Num (k + 1))
               (js_add number (Num 1)) (segs @ [s0])"
      using True by (subst getSegments_while.simps) (simp add: e s0_def)
    have "rp - (k + 1) < real m" using Suc.prems by simp
    from Suc.IH [OF this, of "js_add number (Num 1)" "segs @ [s0]"]
    obtain c n new where res: "getSegments_while repId idx e (Num tt) (Num rp) (Num (k + 1))
               (js_add number (Num 1)) (segs @ [s0]) = Some (c, n, (segs @ [s0]) @ new)"
      and new: "entry_segments repId (a + (k + 1) * dd) (a + rp * dd) tt dd new"
      by blast
    have s0: "seg_time s0 = Num (a + k * dd)" "seg_duration s0 = Some (Num dd)"
      "seg_id s0 = (repId, Num (a + k * dd))"
      by (simp_all add: s0_def timed_segment_def e)
    have le: "a + k * dd \<le> a + rp * dd" using True dd by simp
    have lt: "a + k * dd < a + (k + 1) * dd" using dd by (simp add: algebra_simps)
    have "entry_segments repId (a + k * dd) (a + rp * dd) tt dd (s0 # new)"
      unfolding entry_segments_def
    proof (intro conjI ballI)
      fix s assume "s \<in> set (s0 # new)"
      then consider "s = s0" | "s \<in> set new" by auto
      then show "\<exists>tv. seg_time s = Num tv \<and> a + k * dd \<le> tv \<and> tv \<le> a + rp * dd \<and> tv < tt
                        \<and> seg_duration s = Some (Num dd) \<and> seg_id s = (repId, Num tv)"
      proof cases
        case 1
        with s0 le True show ?thesis by simp
      next
        case 2
        with new obtain tv where "seg_time s = Num tv" "a + (k + 1) * dd \<le> tv" "tv \<le> a + rp * dd"
          "tv < tt" "seg_duration s = Some (Num dd)" "seg_id s = (repId, Num tv)"
          unfolding entry_segments_def by blast
        with lt show ?thesis by simp
      qed
    next
      have "\<forall>s \<in> set new. val (seg_time s0) < val (seg_time s)"
      proof
        fix s assume "s \<in> set new"
        with new obtain tv where "seg_time s = Num tv" "a + (k + 1) * dd \<le> tv"
          unfolding entry_segments_def by blast
        with lt s0 show "val (seg_time s0) < val (seg_time s)" by simp
      qed
      with new show "sorted_wrt (<) (map (\<lambda>s. val (seg_time s)) (s0 # new))"
        by (simp add: entry_segments_def)
    qed
    with step res show ?thesis by auto
  qed
qed

lemma loop_segments_Nil: "loop_segments repId tline up tt i []"
  by (simp add: loop_segments_def)

lemma timeline_ok_entry:
  assumes "timeline_ok tline" "i < length tline"
  shows "e_ts (tline ! i) = Num (val (e_ts (tline ! i)))"
    and "e_d (tline ! i) = Num (val (e_d (tline ! i)))"
    and "e_r (tline ! i) = Num (val (e_r (tline ! i)))"
    and "0 \<le> val (e_r (tline ! i))"
    and "0 < val (e_d (tline ! i)) \<or> val (e_d (tline ! i)) = - 1"
proof -
  have "tline ! i \<in> set tline" using assms(2) by simp
  with assms(1) have "is_fin (e_ts (tline ! i))" "is_fin (e_d (tline ! i))" "is_fin (e_r (tline ! i))"
    "0 \<le> val (e_r (tline ! i))"
    by (simp_all add: timeline_ok_def)
  then show "e_ts (tline ! i) = Num (val (e_ts (tline ! i)))"
    and "e_d (tline ! i) = Num (val (e_d (tline ! i)))"
    and "e_r (tline ! i) = Num (val (e_r (tline ! i)))"
    and "0 \<le> val (e_r (tline ! i))"
    by (simp_all add: is_fin_val)
  show "0 < val (e_d (tline ! i)) \<or> val (e_d (tline ! i)) = - 1"
    using assms by (auto simp add: timeline_ok_def)
qed

lemma timeline_ok_next:
  assumes "timeline_ok tline" "Suc i < length tline"
  shows "val (e_ts (tline ! i)) + (val (e_r (tline ! i)) + 1) * val (e_d (tline ! i))
              \<le> val (e_ts (tline ! Suc i))"
    and "0 < val (e_d (tline ! i))"
    and "val (e_ts (tline ! i)) \<le> val (e_ts (tline ! Suc i))"
proof -
  show nxt: "val (e_ts (tline ! i)) + (val (e_r (tline ! i)) + 1) * val (e_d (tline ! i))
              \<le> val (e_ts (tline ! Suc i))"
    using assms by (simp add: timeline_ok_def)
  have il: "i < length tline" using assms(2) by simp
  have "0 < val (e_d (tline ! i)) \<or> (val (e_d (tline ! i)) = - 1 \<and> Suc i = length tline)"
    using assms(1) il unfolding timeline_ok_def by blast
  with assms(2) show pos: "0 < val (e_d (tline ! i))" by simp
  have "0 \<le> val (e_r (tline ! i))"
    using timeline_ok_entry(4) [OF assms(1) il] .
  then have "0 \<le> (val (e_r (tline ! i)) + 1) * val (e_d (tline ! i))"
    using pos by simp
  with nxt show "val (e_ts (tline ! i)) \<le> val (e_ts (tline ! Suc i))" by simp
qed

lemma loop_segments_Suc:
  assumes ok: "timeline_ok tline" and new: "loop_segments repId tline up tt (Suc i) new"
  shows "loop_segments repId tline up tt i new"
  unfolding loop_segments_def
proof (intro conjI ballI)
  fix s assume s: "s \<in> set new"
  with new obtain tv where tv: "seg_time s = Num tv" "seg_id s = (repId, Num tv)"
    "Suc i < length tline" "val (e_ts (tline ! Suc i)) \<le> tv"
    "(case seg_duration s of
               None \<Rightarrow> True
             | Some dv \<Rightarrow> \<exists>dd. dv = Num dd \<and> up - dd < tv \<and> tv < tt
                               \<and> (\<exists>e \<in> set tline. e_d e = Num dd))"
    unfolding loop_segments_def by blast
  have "val (e_ts (tline ! i)) \<le> tv"
    using timeline_ok_next(3) [OF ok tv(3)] tv(4) by simp
  with tv show "\<exists>tv. seg_time s = Num tv \<and> seg_id s = (repId, Num tv)
         \<and> i < length tline \<and> val (e_ts (tline ! i)) \<le> tv
         \<and> (case seg_duration s of
               None \<Rightarrow> True
             | Some dv \<Rightarrow> \<exists>dd. dv = Num dd \<and> up - dd < tv \<and> tv < tt
                               \<and> (\<exists>e \<in> set tline. e_d e = Num dd))"
    by auto
next
  show "sorted_wrt (<) (map (\<lambda>s. val (seg_time s)) new)"
    using new by (simp add: loop_segments_def)
next
  fix s assume "s \<in> set (butlast new)"
  with new show "seg_duration s \<noteq> None" by (simp add: loop_segments_def)
qed

lemma loop_segments_append:
  assumes ok: "timeline_ok tline" and i: "i < length tline"
    and a: "val (e_ts (tline ! i)) = a" and dd: "e_d (tline ! i) = Num dd"
    and rr: "val (e_r (tline ! i)) = rr"
    and new1: "entry_segments repId lo hi tt dd new1"
    and lo: "a \<le> lo" "up - dd < lo" and hi: "hi < a + (rr + 1) * dd"
    and new2: "loop_segments repId tline up tt (Suc i) new2"
  shows "loop_segments repId tline up tt i (new1 @ new2)"
proof -
  have n2: "loop_segments repId tline up tt i new2"
    using loop_segments_Suc [OF ok new2] .
  have mem: "tline ! i \<in> set tline" using i by simp
  have el1: "\<exists>tv. seg_time s = Num tv \<and> seg_id s = (repId, Num tv)
         \<and> lo \<le> tv \<and> tv \<le> hi \<and> tv < tt \<and> seg_duration s = Some (Num dd)"
    if "s \<in> set new1" for s
    using new1 that unfolding entry_segments_def by blast
  have p1: "\<exists>tv. seg_time s = Num tv \<and> seg_id s = (repId, Num tv)
         \<and> i < length tline \<and> val (e_ts (tline ! i)) \<le> tv
         \<and> (case seg_duration s of
               None \<Rightarrow> True
             | Some dv \<Rightarrow> \<exists>dd. dv = Num dd \<and> up - dd < tv \<and> tv < tt
                               \<and> (\<exists>e \<in> set tline. e_d e = Num dd))"
    if "s \<in> set new1" for s
  proof -
    from el1 [OF that] obtain tv where tv: "seg_time s = Num tv" "seg_id s = (repId, Num tv)"
      "lo \<le> tv" "tv \<le> hi" "tv < tt" "seg_duration s = Some (Num dd)" by blast
    have "\<exists>e \<in> set tline. e_d e = Num dd" using mem dd by blast
    with tv lo a i show ?thesis by auto
  qed
  have p2: "\<exists>tv. seg_time s = Num tv \<and> seg_id s = (repId, Num tv)
         \<and> i < length tline \<and> val (e_ts (tline ! i)) \<le> tv
         \<and> (case seg_duration s of
               None \<Rightarrow> True
             | Some dv \<Rightarrow> \<exists>dd. dv = Num dd \<and> up - dd < tv \<and> tv < tt
                               \<and> (\<exists>e \<in> set tline. e_d e = Num dd))"
    if "s \<in> set new2" for s
    using n2 that unfolding loop_segments_def by blast
  have cross: "val (seg_time x) < val (seg_time y)" if "x \<in> set new1" "y \<in> set new2" for x y
  proof -
    from el1 [OF that(1)] obtain tx where tx: "seg_time x = Num tx" "tx \<le> hi" by blast
    from new2 that(2) obtain ty where ty: "seg_time y = Num ty" "Suc i < length tline"
      "val (e_ts (tline ! Suc i)) \<le> ty"
      unfolding loop_segments_def by blast
    have "a + (rr + 1) * dd \<le> val (e_ts (tline ! Suc i))"
      using timeline_ok_next(1) [OF ok ty(2)] a dd rr by simp
    with tx ty hi show ?thesis by simp
  qed
  have srt: "sorted_wrt (<) (map (\<lambda>s. val (seg_time s)) (new1 @ new2))"
    using new1 new2 cross
    by (simp add: sorted_wrt_append entry_segments_def loop_segments_def)
  have bl: "seg_duration s \<noteq> None" if "s \<in> set (butlast (new1 @ new2))" for s
  proof (cases "new2 = []")
    case True
    with that have "s \<in> set new1" by (simp add: in_set_butlastD)
    with el1 show ?thesis by fastforce
  next
    case False
    with that have "s \<in> set new1 \<or> s \<in> set (butlast new2)"
      by (simp add: butlast_append)
    then show ?thesis
    proof
      assume "s \<in> set new1"
      with el1 show ?thesis by fastforce
    next
      assume "s \<in> set (butlast new2)"
      with new2 show ?thesis by (simp add: loop_segments_def)
    qed
  qed
  show ?thesis
    unfolding loop_segments_def
  proof (intro conjI ballI)
    fix s assume "s \<in> set (new1 @ new2)"
    then have "s \<in> set new1 \<or> s \<in> set new2" by simp
    then show "\<exists>tv. seg_time s = Num tv \<and> seg_id s = (repId, Num tv)
         \<and> i < length tline \<and> val (e_ts (tline ! i)) \<le> tv
         \<and> (case seg_duration s of
               None \<Rightarrow> True
             | Some dv \<Rightarrow> \<exists>dd. dv = Num dd \<and> up - dd < tv \<and> tv < tt
                               \<and> (\<exists>e \<in> set tline. e_d e = Num dd))"
      using p1 p2 by blast
  next
    show "sorted_wrt (<) (map (\<lambda>s. val (seg_time s)) (new1 @ new2))" using srt .
  next
    fix s assume "s \<in> set (butlast (new1 @ new2))"
    then show "seg_duration s \<noteq> None" using bl by simp
  qed
qed

lemma getSegments_loop_end:
  "length (i_timeline idx) \<le> i
   \<Longrightarrow> getSegments_loop repId idx up tt i md number segs = Some segs"
  by (subst getSegments_loop.simps) simp

lemma getSegments_loop_live:
  assumes "i < length (i_timeline idx)" "js_lt (e_d (i_timeline idx ! i)) (Num 0)"
  shows "getSegments_loop repId idx up tt i md number segs
     = (if js_lt (js_add (e_ts (i_timeline idx ! i)) (js_max md (e_d (i_timeline idx ! i)))) tt
        then Some (segs @ [live_segment repId idx (i_timeline idx ! i) (js_add number (Num 1))])
        else Some segs)"
  apply (subst getSegments_loop.simps)
  apply (simp only: Let_def)
  using assms apply (simp only: if_True if_False not_le [symmetric] simp_thms)
  done

lemma getSegments_loop_skip:
  assumes "i < length (i_timeline idx)" "\<not> js_lt (e_d (i_timeline idx ! i)) (Num 0)"
    and "js_gt (getSegmentNumber up (e_ts (i_timeline idx ! i)) (e_d (i_timeline idx ! i)))
           (getRepeat (i_timeline idx ! i)
              (if i + 1 < length (i_timeline idx) then Some (i_timeline idx ! (i + 1)) else None))"
  shows "getSegments_loop repId idx up tt i md number segs
     = getSegments_loop repId idx up tt (i + 1) (js_max md (e_d (i_timeline idx ! i)))
         (js_add (js_add number (Num 1))
            (getRepeat (i_timeline idx ! i)
              (if i + 1 < length (i_timeline idx) then Some (i_timeline idx ! (i + 1)) else None)))
         segs"
  apply (subst getSegments_loop.simps)
  apply (simp only: Let_def)
  using assms apply (simp only: if_True if_False not_le [symmetric] simp_thms)
  done

lemma getSegments_loop_while:
  assumes "i < length (i_timeline idx)" "\<not> js_lt (e_d (i_timeline idx ! i)) (Num 0)"
    and "\<not> js_gt (getSegmentNumber up (e_ts (i_timeline idx ! i)) (e_d (i_timeline idx ! i)))
           (getRepeat (i_timeline idx ! i)
              (if i + 1 < length (i_timeline idx) then Some (i_timeline idx ! (i + 1)) else None))"
  shows "getSegments_loop repId idx up tt i md number segs
     = (case getSegments_while repId idx (i_timeline idx ! i) tt
               (getRepeat (i_timeline idx ! i)
                  (if i + 1 < length (i_timeline idx) then Some (i_timeline idx ! (i + 1))
                   else None))
               (getSegmentNumber up (e_ts (i_timeline idx ! i)) (e_d (i_timeline idx ! i)))
               (js_add number (Num 1)) segs of
          None \<Rightarrow> None
        | Some (continue, number2, segments2) \<Rightarrow>
            if continue
            then getSegments_loop repId idx up tt (i + 1)
                   (js_max md (e_d (i_timeline idx ! i))) number2 segments2
            else Some segments2)"
  apply (subst getSegments_loop.simps)
  apply (simp only: Let_def)
  using assms apply (simp only: if_True if_False not_le [symmetric] simp_thms)
  done

lemma getRepeat_finite: "e_r e = Num rr \<Longrightarrow> 0 \<le> rr \<Longrightarrow> getRepeat e nxt = Num rr"
  by (simp add: getRepeat_def Let_def)

lemma getSegmentNumber_finite:
  assumes "0 < dd"
  shows "\<exists>k. getSegmentNumber (Num up) (Num a) (Num dd) = Num k \<and> 0 \<le> k
             \<and> up - dd < a + k * dd"
proof (cases "0 < up - a")
  case False
  then have "getSegmentNumber (Num up) (Num a) (Num dd) = Num 0"
    by (simp add: getSegmentNumber_def Let_def)
  moreover have "up - dd < a + 0 * dd" using False assms by simp
  ultimately show ?thesis by blast
next
  case True
  define k where "k = real_of_int \<lfloor>(up - a) / dd\<rfloor>"
  have eq: "getSegmentNumber (Num up) (Num a) (Num dd) = Num k"
    using True assms by (simp add: getSegmentNumber_def Let_def k_def)
  have "0 \<le> (up - a) / dd" using True assms by simp
  then have k0: "0 \<le> k" by (simp add: k_def)
  have "(up - a) / dd < k + 1" by (simp add: k_def)
  then have "up - a < (k + 1) * dd" using assms by (simp add: pos_divide_less_eq)
  then have "up - dd < a + k * dd" by (simp add: algebra_simps)
  with eq k0 show ?thesis by blast
qed

lemma getSegments_loop_live_finite:
  assumes i: "i < length (i_timeline idx)"
    and ef: "e_ts (i_timeline idx ! i) = Num a" "e_d (i_timeline idx ! i) = Num dd"
    and neg: "dd < 0"
  shows "getSegments_loop repId idx (Num up) (Num tt) i (Num md) number segs
          = Some (segs @ (if a + max md dd < tt
                          then [live_segment repId idx (i_timeline idx ! i)
                                  (js_add number (Num 1))]
                          else []))"
proof -
  have "js_lt (e_d (i_timeline idx ! i)) (Num 0)" using ef neg by simp
  from getSegments_loop_live [OF i this, of repId "Num up" "Num tt" "Num md" number segs]
  show ?thesis by (simp add: ef)
qed

lemma getSegments_loop_skip_finite:
  assumes i: "i < length (i_timeline idx)"
    and ef: "e_ts (i_timeline idx ! i) = Num a" "e_d (i_timeline idx ! i) = Num dd"
      "e_r (i_timeline idx ! i) = Num rr"
    and pos: "0 < dd" "0 \<le> rr"
    and k: "getSegmentNumber (Num up) (Num a) (Num dd) = Num k" "rr < k"
  shows "getSegments_loop repId idx (Num up) (Num tt) i (Num md) number segs
          = getSegments_loop repId idx (Num up) (Num tt) (i + 1) (Num (max md dd))
              (js_add (js_add number (Num 1)) (Num rr)) segs"
proof -
  have nl: "\<not> js_lt (e_d (i_timeline idx ! i)) (Num 0)" using ef pos by simp
  have rep: "getRepeat (i_timeline idx ! i) nxt = Num rr" for nxt
    using getRepeat_finite [OF ef(3) pos(2)] .
  have gt: "js_gt (getSegmentNumber (Num up) (e_ts (i_timeline idx ! i)) (e_d (i_timeline idx ! i)))
           (getRepeat (i_timeline idx ! i)
              (if i + 1 < length (i_timeline idx) then Some (i_timeline idx ! (i + 1)) else None))"
    using k by (simp only: rep ef) simp
  from getSegments_loop_skip [OF i nl gt, of repId "Num tt" "Num md" number segs]
  show ?thesis by (simp only: rep ef) simp
qed

lemma getSegments_loop_while_finite:
  assumes i: "i < length (i_timeline idx)"
    and ef: "e_ts (i_timeline idx ! i) = Num a" "e_d (i_timeline idx ! i) = Num dd"
      "e_r (i_timeline idx ! i) = Num rr"
    and pos: "0 < dd" "0 \<le> rr"
    and k: "getSegmentNumber (Num up) (Num a) (Num dd) = Num k" "\<not> rr < k"
    and w: "getSegments_while repId idx (i_timeline idx ! i) (Num tt) (Num rr) (Num k)
              (js_add number (Num 1)) segs = Some (c, n1, segs1)"
  shows "getSegments_loop repId idx (Num up) (Num tt) i (Num md) number segs
          = (if c then getSegments_loop repId idx (Num up) (Num tt) (i + 1) (Num (max md dd))
                         n1 segs1
             else Some segs1)"
proof -
  have nl: "\<not> js_lt (e_d (i_timeline idx ! i)) (Num 0)" using ef pos by simp
  have rep: "getRepeat (i_timeline idx ! i) nxt = Num rr" for nxt
    using getRepeat_finite [OF ef(3) pos(2)] .
  have ngt: "\<not> js_gt (getSegmentNumber (Num up) (e_ts (i_timeline idx ! i)) (e_d (i_timeline idx ! i)))
           (getRepeat (i_timeline idx ! i)
              (if i + 1 < length (i_timeline idx) then Some (i_timeline idx ! (i + 1)) else None))"
    using k by (simp only: rep ef) simp
  from getSegments_loop_while [OF i nl ngt, of repId "Num tt" "Num md" number segs]
  show ?thesis by (simp only: rep ef k(1) w) simp
qed

lemma getSegments_loop_finite:
  assumes ok: "timeline_ok (i_timeline idx)"
  shows "length (i_timeline idx) - i = n \<Longrightarrow>
     \<exists>new. getSegments_loop repId idx (Num up) (Num tt) i (Num md) number segs
              = Some (segs @ new)
           \<and> loop_segments repId (i_timeline idx) up tt i new"
proof (induction n arbitrary: i md number segs)
  case 0
  then have "getSegments_loop repId idx (Num up) (Num tt) i (Num md) number segs = Some segs"
    by (simp add: getSegments_loop_end)
  then show ?case using loop_segments_Nil by fastforce
next
  case (Suc n)
  then have i: "i < length (i_timeline idx)" by simp
  obtain a dd rr where ef: "e_ts (i_timeline idx ! i) = Num a" "e_d (i_timeline idx ! i) = Num dd"
      "e_r (i_timeline idx ! i) = Num rr" "0 \<le> rr" "0 < dd \<or> dd = - 1"
    using timeline_ok_entry [OF ok i] by metis
  have rest: "length (i_timeline idx) - (i + 1) = n" using Suc.prems by simp
  show ?case
  proof (cases "dd < 0")
    case True
    have res: "getSegments_loop repId idx (Num up) (Num tt) i (Num md) number segs
          = Some (segs @ (if a + max md dd < tt
                          then [live_segment repId idx (i_timeline idx ! i)
                                  (js_add number (Num 1))]
                          else []))"
      using getSegments_loop_live_finite [OF i ef(1) ef(2) True] .
    have "loop_segments repId (i_timeline idx) up tt i
            [live_segment repId idx (i_timeline idx ! i) (js_add number (Num 1))]"
      using i by (simp add: loop_segments_def live_segment_def ef)
    then have "loop_segments repId (i_timeline idx) up tt i
        (if a + max md dd < tt
         then [live_segment repId idx (i_timeline idx ! i) (js_add number (Num 1))] else [])"
      using loop_segments_Nil by simp
    with res show ?thesis by blast
  next
    case False
    with ef have pos: "0 < dd" by auto
    obtain k where k: "getSegmentNumber (Num up) (Num a) (Num dd) = Num k" "0 \<le> k"
      "up - dd < a + k * dd"
      using getSegmentNumber_finite [OF pos] by blast
    show ?thesis
    proof (cases "rr < k")
      case True
      have res: "getSegments_loop repId idx (Num up) (Num tt) i (Num md) number segs
          = getSegments_loop repId idx (Num up) (Num tt) (i + 1) (Num (max md dd))
              (js_add (js_add number (Num 1)) (Num rr)) segs"
        using getSegments_loop_skip_finite [OF i ef(1) ef(2) ef(3) pos ef(4) k(1) True] .
      from Suc.IH [OF rest] obtain new where
        new: "getSegments_loop repId idx (Num up) (Num tt) (i + 1) (Num (max md dd))
              (js_add (js_add number (Num 1)) (Num rr)) segs = Some (segs @ new)"
          "loop_segments repId (i_timeline idx) up tt (i + 1) new"
        by blast
      have "loop_segments repId (i_timeline idx) up tt i new"
        using loop_segments_Suc [OF ok] new(2) by simp
      with res new(1) show ?thesis by simp
    next
      case False
      define m where "m = Suc (nat \<lceil>rr - k\<rceil>)"
      have "rr - k < real m" unfolding m_def by linarith
      from getSegments_while_finite [OF ef(1) ef(2) pos this]
      obtain c n1 new1 where
        w: "getSegments_while repId idx (i_timeline idx ! i) (Num tt) (Num rr) (Num k)
              (js_add number (Num 1)) segs = Some (c, n1, segs @ new1)"
        and new1: "entry_segments repId (a + k * dd) (a + rr * dd) tt dd new1"
        by blast
      have res: "getSegments_loop repId idx (Num up) (Num tt) i (Num md) number segs
          = (if c then getSegments_loop repId idx (Num up) (Num tt) (i + 1) (Num (max md dd)) n1
                         (segs @ new1)
             else Some (segs @ new1))"
        using getSegments_loop_while_finite [OF i ef(1) ef(2) ef(3) pos ef(4) k(1) False w] .
      have lo: "a \<le> a + k * dd" using k(2) pos by simp
      have hi: "a + rr * dd < a + (rr + 1) * dd" using pos by (simp add: algebra_simps)
      have va: "val (e_ts (i_timeline idx ! i)) = a" "val (e_r (i_timeline idx ! i)) = rr"
        by (simp_all add: ef)
      have app: "loop_segments repId (i_timeline idx) up tt i (new1 @ new2)"
        if "loop_segments repId (i_timeline idx) up tt (Suc i) new2" for new2
        using loop_segments_append [OF ok i va(1) ef(2) va(2) new1 lo k(3) hi that] .
      show ?thesis
      proof (cases c)
        case True
        from Suc.IH [OF rest] obtain new2 where
          new2: "getSegments_loop repId idx (Num up) (Num tt) (i + 1) (Num (max md dd)) n1
                   (segs @ new1) = Some ((segs @ new1) @ new2)"
            "loop_segments repId (i_timeline idx) up tt (i + 1) new2"
          by blast
        have "loop_segments repId (i_timeline idx) up tt i (new1 @ new2)"
          using app new2(2) by simp
        with res True new2(1) show ?thesis by simp
      next
        case False
        have "loop_segments repId (i_timeline idx) up tt i (new1 @ [])"
          using app loop_segments_Nil by blast
        with res False show ?thesis by simp
      qed
    qed
  qed
qed

lemma getSegments_unfold:
  assumes ok: "timeline_ok (i_timeline idx)" and rng: "normalizeRange idx a b = (Num up, Num tt)"
  shows "\<exists>md number. getSegments repId idx a b
           = getSegments_loop repId idx (Num up) (Num tt) (getSegmentIndex idx (Num up))
               (Num md) number []"
proof (cases "length (i_timeline idx) = 0")
  case True
  then show ?thesis using rng by (simp add: getSegments_def Let_def) blast
next
  case False
  then have "0 < length (i_timeline idx)" by simp
  from timeline_ok_entry(2) [OF ok this]
  obtain d0 where d0: "e_d (i_timeline idx ! 0) = Num d0" by blast
  have "(if js_truthy (e_d (i_timeline idx ! 0)) then e_d (i_timeline idx ! 0) else Num 0)
          = Num (if d0 \<noteq> 0 then d0 else 0)"
    by (simp add: d0)
  with False rng show ?thesis by (simp add: getSegments_def Let_def) blast
qed

text \<open>
  C3, as the spec states it: every returned time lies in \<open>[a - maxD, b)\<close>. The timeline
  [{ts: 0, d: 4, r: 0}, {ts: 4, d: -1, r: 0}] meets the invariants, and for the range
  from 100 to 200 the code starts at the open-ended last entry, the last one that starts
  before 100, and returns its reference, whose time 4 is far below \<open>100 - 4\<close>: for a
  live-added entry only \<open>ts + maxDuration < to\<close> is tested.
\<close>

theorem getSegments_open_ended_before_range:
  "getSegments ''video''
     \<lparr>i_timeline = [\<lparr>e_ts = Num 0, e_d = Num 4, e_r = Num 0, e_t = None, e_range = None\<rparr>,
                    \<lparr>e_ts = Num 4, e_d = Num (- 1), e_r = Num 0, e_t = None, e_range = None\<rparr>],
      i_timescale = Some (Num 1), i_presentationTimeOffset = None, i_media = ''m'',
      i_startNumber = None\<rparr> (Num 100) (Num 200)
   = Some [\<lparr>seg_id = (''video'', Num 4), seg_time = Num 4, seg_init = False, seg_range = None,
            seg_duration = None, seg_indexRange = None, seg_timescale = Some (Num 1),
            seg_media = ''m'', seg_number = Num 0\<rparr>]
   \<and> timeline_ok [\<lparr>e_ts = Num 0, e_d = Num 4, e_r = Num 0, e_t = None, e_range = None\<rparr>,
                    \<lparr>e_ts = Num 4, e_d = Num (- 1), e_r = Num 0, e_t = None, e_range = None\<rparr>]
   \<and> js_lt (Num 4) (js_sub (Num 100) (Num 4))"
proof -
  let ?tl = "[\<lparr>e_ts = Num 0, e_d = Num 4, e_r = Num 0, e_t = None, e_range = None\<rparr>,
             \<lparr>e_ts = Num 4, e_d = Num (- 1), e_r = Num 0, e_t = None, e_range = None\<rparr>]"
  let ?idx = "\<lparr>i_timeline = ?tl, i_timescale = Some (Num 1), i_presentationTimeOffset = None,
               i_media = ''m'', i_startNumber = None\<rparr>"
  have gi: "getSegmentIndex ?idx (Num 100) = 1"
    by (simp add: getSegmentIndex_def getSegmentIndex_loop.simps Let_def)
  have lp: "getSegments_loop ''video'' ?idx (Num 100) (Num 200) 1 (Num 4) (Num (- 1)) []
      = Some [live_segment ''video'' ?idx (?tl ! 1) (Num 0)]"
    by (simp add: getSegments_loop_live)
  have ok: "timeline_ok ?tl"
    by (simp add: timeline_ok_def less_Suc_eq)
  show ?thesis
    using gi lp ok by (simp add: getSegments_def normalizeRange_def live_segment_def)
qed

text \<open>
  C3, amended: for a timeline that meets the invariants and bounds that normalise to
  finite ticks \<open>up\<close> and \<open>to\<close>, \<open>getSegments\<close> returns a list of references that is sorted
  in strictly ascending time, with pairwise distinct ids, each id being the pair of the
  representation and the time. Every reference that has a duration \<open>d\<close> has its time in
  \<open>(up - d, to)\<close>, hence in \<open>[up - maxD, to)\<close> for the maximum entry duration \<open>maxD\<close>. The
  reference of the open-ended entry, which has no duration, can only be the last one.
\<close>

theorem getSegments_references:
  assumes ok: "timeline_ok (i_timeline idx)" and rng: "normalizeRange idx a b = (Num up, Num tt)"
  shows "\<exists>segs. getSegments repId idx a b = Some segs
           \<and> sorted_wrt (<) (map (\<lambda>s. val (seg_time s)) segs)
           \<and> distinct (map seg_id segs)
           \<and> (\<forall>s \<in> set segs. is_fin (seg_time s) \<and> seg_id s = (repId, seg_time s))
           \<and> (\<forall>s \<in> set segs. \<forall>dv. seg_duration s = Some dv \<longrightarrow>
                  up - val dv < val (seg_time s) \<and> val (seg_time s) < tt
                  \<and> up - Max ((\<lambda>e. val (e_d e)) ` set (i_timeline idx)) \<le> val (seg_time s))
           \<and> (\<forall>s \<in> set (butlast segs). seg_duration s \<noteq> None)"
proof -
  obtain md number where unf: "getSegments repId idx a b
           = getSegments_loop repId idx (Num up) (Num tt) (getSegmentIndex idx (Num up))
               (Num md) number []"
    using getSegments_unfold [OF ok rng] by blast
  obtain segs where res: "getSegments_loop repId idx (Num up) (Num tt)
              (getSegmentIndex idx (Num up)) (Num md) number [] = Some ([] @ segs)"
    and ls: "loop_segments repId (i_timeline idx) up tt (getSegmentIndex idx (Num up)) segs"
    using getSegments_loop_finite [OF ok refl] by blast
  have el: "\<exists>tv. seg_time s = Num tv \<and> seg_id s = (repId, Num tv)
         \<and> (case seg_duration s of
               None \<Rightarrow> True
             | Some dv \<Rightarrow> \<exists>dd. dv = Num dd \<and> up - dd < tv \<and> tv < tt
                               \<and> (\<exists>e \<in> set (i_timeline idx). e_d e = Num dd))"
    if "s \<in> set segs" for s
    using ls that unfolding loop_segments_def by blast
  have srt: "sorted_wrt (<) (map (\<lambda>s. val (seg_time s)) segs)"
    using ls by (simp add: loop_segments_def)
  have ids: "is_fin (seg_time s) \<and> seg_id s = (repId, seg_time s)" if "s \<in> set segs" for s
    using el [OF that] by auto
  have "distinct (map (\<lambda>s. val (seg_time s)) segs)"
    using srt strict_sorted_iff by blast
  moreover have "map (\<lambda>s. val (seg_time s)) segs = map (\<lambda>p. val (snd p)) (map seg_id segs)"
    using ids by simp
  ultimately have "distinct (map (\<lambda>p. val (snd p)) (map seg_id segs))"
    by simp
  then have dist: "distinct (map seg_id segs)"
    using distinct_map [of "\<lambda>p. val (snd p)" "map seg_id segs"] by blast
  have bnd: "up - val dv < val (seg_time s) \<and> val (seg_time s) < tt
                  \<and> up - Max ((\<lambda>e. val (e_d e)) ` set (i_timeline idx)) \<le> val (seg_time s)"
    if "s \<in> set segs" "seg_duration s = Some dv" for s dv
  proof -
    from el [OF that(1)] that(2) obtain tv dd e where tv: "seg_time s = Num tv" "dv = Num dd"
      "up - dd < tv" "tv < tt" "e \<in> set (i_timeline idx)" "e_d e = Num dd"
      by auto
    have "val (e_d e) \<le> Max ((\<lambda>e. val (e_d e)) ` set (i_timeline idx))"
      using tv(5) by simp
    with tv show ?thesis by simp
  qed
  have bl: "\<forall>s \<in> set (butlast segs). seg_duration s \<noteq> None"
    using ls by (simp add: loop_segments_def)
  show ?thesis using unf res srt dist ids bnd bl by auto
qed

theorem getSegments_references_witness:
  "\<exists>segs. getSegments ''video''
       \<lparr>i_timeline = [\<lparr>e_ts = Num 0, e_d = Num 4, e_r = Num 3, e_t = None, e_range = None\<rparr>,
                      \<lparr>e_ts = Num 16, e_d = Num 2, e_r = Num 1, e_t = None, e_range = None\<rparr>,
                      \<lparr>e_ts = Num 30, e_d = Num (- 1), e_r = Num 0, e_t = None, e_range = None\<rparr>],
        i_timescale = Some (Num 1), i_presentationTimeOffset = None, i_media = ''m'',
        i_startNumber = None\<rparr> (Num 5) (Num 200) = Some segs
     \<and> sorted_wrt (<) (map (\<lambda>s. val (seg_time s)) segs)
     \<and> distinct (map seg_id segs)
     \<and> (\<forall>s \<in> set segs. \<forall>dv. seg_duration s = Some dv \<longrightarrow>
            5 - val dv < val (seg_time s) \<and> val (seg_time s) < 200
            \<and> 5 - 4 \<le> val (seg_time s))"
proof -
  let ?tl = "[\<lparr>e_ts = Num 0, e_d = Num 4, e_r = Num 3, e_t = None, e_range = None\<rparr>,
             \<lparr>e_ts = Num 16, e_d = Num 2, e_r = Num 1, e_t = None, e_range = None\<rparr>,
             \<lparr>e_ts = Num 30, e_d = Num (- 1), e_r = Num 0, e_t = None, e_range = None\<rparr>]"
  let ?idx = "\<lparr>i_timeline = ?tl, i_timescale = Some (Num 1), i_presentationTimeOffset = None,
               i_media = ''m'', i_startNumber = None\<rparr>"
  have ok: "timeline_ok (i_timeline ?idx)"
    by (simp add: timeline_ok_def less_Suc_eq)
  have rng: "normalizeRange ?idx (Num 5) (Num 200) = (Num 5, Num 200)"
    by (simp add: normalizeRange_def)
  have mx: "Max ((\<lambda>e. val (e_d e)) ` set (i_timeline ?idx)) = 4"
    by simp
  from getSegments_references [OF ok rng, of "''video''"] mx
  show ?thesis by auto
qed

end
